theory Spec2Isabelle
  imports Main "HOL-Library.Word" "HOL-Library.Code_Target_Nat" "HOL-Library.Sublist"
begin

section \<open>Swapchain format classification: integer colour ranges\<close>

text \<open>
  \<^verbatim>\<open>enum ColorIntegerRange\<close> of \<^verbatim>\<open>swapchain_parameters.h\<close> is an unscoped C++
  enumeration: a value of it is an integer, and the declared enumerators are the
  integers 0 to 7 in declaration order. The enumerators are a datatype here and
  \<open>enumValue\<close> gives the integer each one stands for; the two \<^verbatim>\<open>switch\<close>
  statements are modelled on that integer, so that their \<^verbatim>\<open>default\<close> branch is a
  branch of the model.
\<close>

datatype ColorIntegerRange =
    NoIntegerColor
  | u8
  | s8
  | u16
  | s16
  | u32
  | s32
  | uRGB10A2

fun enumValue :: "ColorIntegerRange \<Rightarrow> int" where
  "enumValue NoIntegerColor = 0"
| "enumValue u8 = 1"
| "enumValue s8 = 2"
| "enumValue u16 = 3"
| "enumValue s16 = 4"
| "enumValue u32 = 5"
| "enumValue s32 = 6"
| "enumValue uRGB10A2 = 7"

text \<open>The two \<^verbatim>\<open>std::logic_error\<close> exceptions the functions throw, with their messages.\<close>

datatype logic_error = LogicError string

definition switchColorIntegerRangeBits :: "int \<Rightarrow> logic_error + 8 word" where
  "switchColorIntegerRangeBits v =
     (if v = enumValue NoIntegerColor then
        Inl (LogicError ''ColorIntegerRangeBits only valid for integer colors'')
      else if v = enumValue u8 \<or> v = enumValue s8 then Inr 8
      else if v = enumValue u16 \<or> v = enumValue s16 then Inr 16
      else if v = enumValue u32 \<or> v = enumValue s32 then Inr 32
      else if v = enumValue uRGB10A2 then Inr 10
      else Inl (LogicError ''Missing case in implementation of ColorIntegerRangeBits''))"

definition switchColorIntegerRangeIsSigned :: "int \<Rightarrow> logic_error + bool" where
  "switchColorIntegerRangeIsSigned v =
     (if v = enumValue NoIntegerColor then
        Inl (LogicError ''ColorIntegerRangeIsSigned only valid for integer colors'')
      else if v = enumValue u8 \<or> v = enumValue u16 \<or> v = enumValue u32
              \<or> v = enumValue uRGB10A2 then Inr False
      else if v = enumValue s8 \<or> v = enumValue s16 \<or> v = enumValue s32 then Inr True
      else Inl (LogicError ''Missing case in implementation of ColorIntegerRangeIsSigned''))"

definition ColorIntegerRangeBits :: "ColorIntegerRange \<Rightarrow> logic_error + 8 word" where
  "ColorIntegerRangeBits colorIntegerRange =
     switchColorIntegerRangeBits (enumValue colorIntegerRange)"

definition ColorIntegerRangeIsSigned :: "ColorIntegerRange \<Rightarrow> logic_error + bool" where
  "ColorIntegerRangeIsSigned colorIntegerRange =
     switchColorIntegerRangeIsSigned (enumValue colorIntegerRange)"

text \<open>What it is for a call to end in the \<^verbatim>\<open>default\<close> branch of its \<^verbatim>\<open>switch\<close>.\<close>

definition missingCaseBits :: "logic_error + 8 word \<Rightarrow> bool" where
  "missingCaseBits r \<longleftrightarrow>
     r = Inl (LogicError ''Missing case in implementation of ColorIntegerRangeBits'')"

definition missingCaseIsSigned :: "logic_error + bool \<Rightarrow> bool" where
  "missingCaseIsSigned r \<longleftrightarrow>
     r = Inl (LogicError ''Missing case in implementation of ColorIntegerRangeIsSigned'')"

section \<open>The OpenXR interface the session state test drives\<close>

text \<open>
  The session state test talks to a runtime it does not control. The types of that
  interface come from the OpenXR header, which the test includes: \<^verbatim>\<open>XrResult\<close> is an
  integer enumeration whose negative values are the errors (\<^verbatim>\<open>XR_FAILED\<close>), session
  states and structure types are enumerations, handles are integers.
\<close>

type_synonym XrResult = int

definition XR_SUCCESS :: XrResult where "XR_SUCCESS = 0"
definition XR_EVENT_UNAVAILABLE :: XrResult where "XR_EVENT_UNAVAILABLE = 4"
definition XR_ERROR_SESSION_RUNNING :: XrResult where "XR_ERROR_SESSION_RUNNING = - 14"
definition XR_ERROR_SESSION_NOT_RUNNING :: XrResult where "XR_ERROR_SESSION_NOT_RUNNING = - 16"
definition XR_ERROR_SESSION_NOT_STOPPING :: XrResult where "XR_ERROR_SESSION_NOT_STOPPING = - 29"

definition XR_FAILED :: "XrResult \<Rightarrow> bool" where
  "XR_FAILED r \<longleftrightarrow> r < 0"

lemmas XrResult_defs =
  XR_SUCCESS_def XR_EVENT_UNAVAILABLE_def XR_ERROR_SESSION_RUNNING_def
  XR_ERROR_SESSION_NOT_RUNNING_def XR_ERROR_SESSION_NOT_STOPPING_def XR_FAILED_def

datatype XrSessionState =
    XR_SESSION_STATE_UNKNOWN
  | XR_SESSION_STATE_IDLE
  | XR_SESSION_STATE_READY
  | XR_SESSION_STATE_SYNCHRONIZED
  | XR_SESSION_STATE_VISIBLE
  | XR_SESSION_STATE_FOCUSED
  | XR_SESSION_STATE_STOPPING
  | XR_SESSION_STATE_LOSS_PENDING
  | XR_SESSION_STATE_EXITING

text \<open>
  The session states are the enumerators of the C enumeration \<^verbatim>\<open>XrSessionState\<close> of
  the OpenXR header, numbered from 0 in the order above. Streamed into a message, a
  state is printed as that number.
\<close>

fun streamed :: "XrSessionState \<Rightarrow> string" where
  "streamed XR_SESSION_STATE_UNKNOWN = ''0''"
| "streamed XR_SESSION_STATE_IDLE = ''1''"
| "streamed XR_SESSION_STATE_READY = ''2''"
| "streamed XR_SESSION_STATE_SYNCHRONIZED = ''3''"
| "streamed XR_SESSION_STATE_VISIBLE = ''4''"
| "streamed XR_SESSION_STATE_FOCUSED = ''5''"
| "streamed XR_SESSION_STATE_STOPPING = ''6''"
| "streamed XR_SESSION_STATE_LOSS_PENDING = ''7''"
| "streamed XR_SESSION_STATE_EXITING = ''8''"

datatype XrStructureType =
    XR_TYPE_UNKNOWN
  | XR_TYPE_EVENT_DATA_BUFFER
  | XR_TYPE_EVENT_DATA_EVENTS_LOST
  | XR_TYPE_EVENT_DATA_INSTANCE_LOSS_PENDING
  | XR_TYPE_EVENT_DATA_SESSION_STATE_CHANGED
  | XR_TYPE_EVENT_DATA_REFERENCE_SPACE_CHANGE_PENDING
  | XR_TYPE_EVENT_DATA_INTERACTION_PROFILE_CHANGED
  | XR_TYPE_OTHER nat

type_synonym XrInstance = nat
type_synonym XrSession = nat
type_synonym XrTime = int

record XrEventDataSessionStateChanged =
  type :: XrStructureType
  session :: XrSession
  state :: XrSessionState
  time :: XrTime

type_synonym XrEventDataBuffer = XrEventDataSessionStateChanged

text \<open>
  The runtime is a black box, so a run of the test is determined by what the runtime
  (and the operating system, for a sleep) answers to each call the test makes, in order.
  A \<open>reply\<close> is one such answer: the result code, the wall-clock time the call took
  in nanoseconds, and what the call wrote through its output pointer (the event of
  \<^verbatim>\<open>xrPollEvent\<close>, the predicted display time of \<^verbatim>\<open>xrWaitFrame\<close>). The \<open>script\<close>
  of a \<open>world\<close> holds the answers still to come; a call that finds the script empty
  never returns, which the model reports as \<open>NoReply\<close>. Every answered call is
  appended to the \<open>log\<close> with the time it was made and the leaf section of the test
  case it was made in.
\<close>

record reply =
  result :: XrResult
  elapsed :: nat
  event :: XrEventDataBuffer
  predictedDisplayTime :: XrTime

datatype api_call =
    XrPollEvent XrInstance
  | XrWaitFrame XrSession
  | XrBeginFrame XrSession
  | XrEndFrame XrSession XrTime nat
  | XrBeginSession XrSession nat
  | XrEndSession XrSession
  | XrRequestExitSession XrSession
  | SleepFor nat

record entry =
  call :: api_call
  answer :: reply
  at :: nat
  inSection :: "string option"

record world =
  script :: "reply list"
  now :: nat
  log :: "entry list"
  currentSection :: "string option"
  failedChecks :: "string list"

text \<open>
  How a test case stops early: a \<^verbatim>\<open>REQUIRE\<close> whose expression is false (with the
  message of \<^verbatim>\<open>REQUIRE_MSG\<close>), a \<^verbatim>\<open>FAIL\<close>, the exception thrown by
  \<^verbatim>\<open>XRC_CHECK_THROW_XRCMD\<close>, or a call that never returns. A false \<^verbatim>\<open>CHECK\<close> is
  recorded in \<open>failedChecks\<close> and the test case goes on.
\<close>

datatype failure =
    RequireFailed string string
  | Failed string
  | XrException XrResult string
  | NoReply

type_synonym 'a test = "world \<Rightarrow> (failure + 'a) \<times> world"

definition returnT :: "'a \<Rightarrow> 'a test" where
  "returnT x w = (Inr x, w)"

definition bindT :: "'a test \<Rightarrow> ('a \<Rightarrow> 'b test) \<Rightarrow> 'b test" where
  "bindT m k w = (case m w of (Inl e, w') \<Rightarrow> (Inl e, w') | (Inr x, w') \<Rightarrow> k x w')"

definition perform :: "api_call \<Rightarrow> reply test" where
  "perform c w =
     (case script w of
        [] \<Rightarrow> (Inl NoReply, w)
      | r # rs \<Rightarrow>
          (Inr r, w\<lparr>script := rs, now := now w + elapsed r,
                     log := log w @ [\<lparr>call = c, answer = r, at = now w,
                                      inSection = currentSection w\<rparr>]\<rparr>))"


record GlobalData =
  environmentBlendModeValue :: nat
  viewConfigurationValue :: nat
  IsUsingGraphicsPlugin :: bool

text \<open>
  Modelled from the spec: the macro \<^verbatim>\<open>XRC_CHECK_THROW_XRCMD\<close> of
  \<^verbatim>\<open>utilities/throw_helpers.h\<close>. The helpers fail fatally when a runtime call reports
  an error, and "no event available" is not one: the macro throws when the result is a
  failure code and yields the result otherwise.
\<close>

definition XRC_CHECK_THROW_XRCMD :: "string \<Rightarrow> XrResult \<Rightarrow> XrResult test" where
  "XRC_CHECK_THROW_XRCMD cmd res w =
     (if XR_FAILED res then (Inl (XrException res cmd), w) else (Inr res, w))"

definition thenT :: "unit test \<Rightarrow> 'b test \<Rightarrow> 'b test" where
  "thenT m k = bindT m (\<lambda>_. k)"

definition REQUIRE_MSG :: "string \<Rightarrow> string \<Rightarrow> bool \<Rightarrow> unit test" where
  "REQUIRE_MSG expr msg holds w =
     (if holds then (Inr (), w) else (Inl (RequireFailed expr msg), w))"

definition REQUIRE :: "string \<Rightarrow> bool \<Rightarrow> unit test" where
  "REQUIRE expr holds = REQUIRE_MSG expr [] holds"

definition SECTION :: "string \<Rightarrow> string \<Rightarrow> unit test \<Rightarrow> unit test" where
  "SECTION name selected body w =
     (if selected = name then
        (case body (w\<lparr>currentSection := Some name\<rparr>) of
           (r, w') \<Rightarrow> (r, w'\<lparr>currentSection := currentSection w\<rparr>))
      else (Inr (), w))"

definition CHECK :: "string \<Rightarrow> bool \<Rightarrow> unit test" where
  "CHECK expr holds w =
     (if holds then (Inr (), w) else (Inr (), w\<lparr>failedChecks := failedChecks w @ [expr]\<rparr>))"

definition FAIL :: "string \<Rightarrow> 'a test" where
  "FAIL msg w = (Inl (Failed msg), w)"

text \<open>
  Modelled from the spec: the class \<^verbatim>\<open>CountdownTimer\<close> of \<^verbatim>\<open>conformance_utils.h\<close>,
  a deadline made of the start time and a duration, queried for expiry by reading the
  clock; a zero duration is expired at once. The timer is its end time.
\<close>

definition CountdownTimer :: "nat \<Rightarrow> world \<Rightarrow> nat" where
  "CountdownTimer duration w = now w + duration"

definition IsTimeUp :: "nat \<Rightarrow> world \<Rightarrow> bool" where
  "IsTimeUp endTime w \<longleftrightarrow> endTime \<le> now w"

text \<open>
  \<^verbatim>\<open>std::this_thread::sleep_for\<close> blocks for at least the duration asked for; the
  reply's \<open>elapsed\<close> is the time it overslept.
\<close>

definition sleep_for :: "nat \<Rightarrow> unit test" where
  "sleep_for d w =
     (case perform (SleepFor d) w of
        (Inl e, w') \<Rightarrow> (Inl e, w')
      | (Inr r, w') \<Rightarrow> (Inr (), w'\<lparr>now := now w' + d\<rparr>))"


text \<open>
  The default argument \<^verbatim>\<open>1s\<close> of \<^verbatim>\<open>waitForNextSessionState\<close>, the default argument
  \<^verbatim>\<open>30s\<close> of \<^verbatim>\<open>submitFramesUntilSessionState\<close> and the \<^verbatim>\<open>5ms\<close> the former sleeps
  between two polls, in nanoseconds. No call in the test passes a duration, so every
  call uses the default of the helper it calls.
\<close>

definition waitDuration :: nat where "waitDuration = 1000000000"
definition submitDuration :: nat where "submitDuration = 30000000000"
definition sleepInterval :: nat where "sleepInterval = 5000000"

text \<open>
  A value-initialised \<^verbatim>\<open>XrEventDataSessionStateChanged evt{}\<close>, and the buffer
  \<^verbatim>\<open>{XR_TYPE_EVENT_DATA_BUFFER}\<close> that \<^verbatim>\<open>tryReadEvent\<close> hands to the runtime. A helper
  with an output pointer takes the value the pointer holds and returns the value it
  holds afterwards, next to the \<^verbatim>\<open>bool\<close> it returns.
\<close>

definition zeroInitialized :: XrEventDataSessionStateChanged where
  "zeroInitialized =
     \<lparr>type = XR_TYPE_UNKNOWN, session = 0, state = XR_SESSION_STATE_UNKNOWN, time = 0\<rparr>"

definition emptyEventDataBuffer :: XrEventDataBuffer where
  "emptyEventDataBuffer = zeroInitialized\<lparr>type := XR_TYPE_EVENT_DATA_BUFFER\<rparr>"

lemma perform_shortens:
  "perform c w = (Inr r, w') \<Longrightarrow> length (script w') < length (script w)"
  by (auto simp: perform_def split: list.splits)

lemma sleep_for_shortens:
  "sleep_for d w = (Inr u, w') \<Longrightarrow> length (script w') < length (script w)"
  by (auto simp: sleep_for_def split: prod.splits sum.splits dest: perform_shortens)

subsection \<open>The helpers of the first copy of the test (lines 33 to 95)\<close>

definition tryReadEvent :: "XrInstance \<Rightarrow> (bool \<times> XrEventDataBuffer) test" where
  "tryReadEvent inst w =
     (case perform (XrPollEvent inst) w of
        (Inl e, w') \<Rightarrow> (Inl e, w')
      | (Inr r, w') \<Rightarrow>
          (case XRC_CHECK_THROW_XRCMD ''res = xrPollEvent(instance, evt)'' (result r) w' of
             (Inl e, w'') \<Rightarrow> (Inl e, w'')
           | (Inr res, w'') \<Rightarrow>
               (Inr (res = XR_SUCCESS,
                     if res = XR_SUCCESS then event r else emptyEventDataBuffer), w'')))"

lemma tryReadEvent_shortens:
  "tryReadEvent inst w = (Inr b, w') \<Longrightarrow> length (script w') < length (script w)"
  by (auto simp: tryReadEvent_def XRC_CHECK_THROW_XRCMD_def
      split: prod.splits sum.splits if_splits dest: perform_shortens)

function tryGetNextSessionState ::
  "XrInstance \<Rightarrow> XrEventDataSessionStateChanged
     \<Rightarrow> (bool \<times> XrEventDataSessionStateChanged) test" where
  "tryGetNextSessionState inst evt w =
     (case tryReadEvent inst w of
        (Inl e, w') \<Rightarrow> (Inl e, w')
      | (Inr (got, buffer), w') \<Rightarrow>
          (if got then
             (if type buffer = XR_TYPE_EVENT_DATA_SESSION_STATE_CHANGED
              then (Inr (True, buffer), w')
              else tryGetNextSessionState inst evt w')
           else (Inr (False, evt), w')))"
  by pat_completeness auto
termination
  by (relation "measure (\<lambda>(inst, evt, w). length (script w))")
     (auto dest: tryReadEvent_shortens [OF sym])

declare tryGetNextSessionState.simps [simp del]

lemma tryGetNextSessionState_shortens:
  "tryGetNextSessionState inst evt w = (Inr b, w') \<Longrightarrow> length (script w') < length (script w)"
proof (induction inst evt w rule: tryGetNextSessionState.induct)
  case (1 inst evt w)
  obtain a w1 where rd: "tryReadEvent inst w = (a, w1)"
    by (cases "tryReadEvent inst w")
  show ?case
  proof (cases a)
    case (Inl e)
    with rd "1.prems" show ?thesis
      by (simp add: tryGetNextSessionState.simps [of inst evt w])
  next
    case (Inr p)
    obtain ok buffer where p: "p = (ok, buffer)" by (cases p)
    note sh = tryReadEvent_shortens [OF rd [unfolded Inr]]
    show ?thesis
    proof (cases "ok \<and> type buffer \<noteq> XR_TYPE_EVENT_DATA_SESSION_STATE_CHANGED")
      case False
      with rd Inr p "1.prems" sh show ?thesis
        by (auto simp: tryGetNextSessionState.simps [of inst evt w] split: if_splits)
    next
      case True
      with rd Inr p "1.prems" have "tryGetNextSessionState inst evt w1 = (Inr b, w')"
        by (simp add: tryGetNextSessionState.simps [of inst evt w])
      with "1.IH" [OF rd [symmetric, unfolded Inr p] refl refl] True sh
      show ?thesis by simp
    qed
  qed
qed

function waitLoop ::
  "XrInstance \<Rightarrow> XrEventDataSessionStateChanged \<Rightarrow> nat
     \<Rightarrow> (bool \<times> XrEventDataSessionStateChanged) test" where
  "waitLoop inst evt countdown w =
     (if IsTimeUp countdown w then (Inr (False, evt), w)
      else
        (case tryGetNextSessionState inst evt w of
           (Inl e, w') \<Rightarrow> (Inl e, w')
         | (Inr (found, evt'), w') \<Rightarrow>
             (if found then (Inr (True, evt'), w')
              else
                (case sleep_for sleepInterval w' of
                   (Inl e, w'') \<Rightarrow> (Inl e, w'')
                 | (Inr u, w'') \<Rightarrow> waitLoop inst evt' countdown w''))))"
  by pat_completeness auto
termination
  by (relation "measure (\<lambda>(inst, evt, countdown, w). length (script w))")
     (auto dest!: tryGetNextSessionState_shortens [OF sym] sleep_for_shortens [OF sym])

definition waitForNextSessionState ::
  "XrInstance \<Rightarrow> XrEventDataSessionStateChanged \<Rightarrow> nat
     \<Rightarrow> (bool \<times> XrEventDataSessionStateChanged) test" where
  "waitForNextSessionState inst evt duration w =
     waitLoop inst evt (CountdownTimer duration w) w"

definition submitFrame :: "GlobalData \<Rightarrow> XrSession \<Rightarrow> unit test" where
  "submitFrame g sess =
     bindT (perform (XrWaitFrame sess)) (\<lambda>frameState.
     bindT (XRC_CHECK_THROW_XRCMD ''xrWaitFrame(session, nullptr, &frameState)''
              (result frameState)) (\<lambda>_.
     bindT (perform (XrBeginFrame sess)) (\<lambda>begun.
     bindT (XRC_CHECK_THROW_XRCMD ''xrBeginFrame(session, nullptr)'' (result begun)) (\<lambda>_.
     bindT (perform (XrEndFrame sess (predictedDisplayTime frameState)
                       (environmentBlendModeValue g))) (\<lambda>ended.
     bindT (XRC_CHECK_THROW_XRCMD ''xrEndFrame(session, &frameEndInfo)'' (result ended)) (\<lambda>_.
     returnT ()))))))"

lemma submitFrame_shortens:
  "submitFrame g sess w = (Inr u, w') \<Longrightarrow> length (script w') < length (script w)"
  by (auto simp: submitFrame_def bindT_def returnT_def XRC_CHECK_THROW_XRCMD_def
      split: prod.splits sum.splits if_splits dest!: perform_shortens)

function submitLoop ::
  "GlobalData \<Rightarrow> XrInstance \<Rightarrow> XrSession \<Rightarrow> XrSessionState \<Rightarrow> nat \<Rightarrow> unit test" where
  "submitLoop g inst sess expectedSessionState countdown w =
     (if IsTimeUp countdown w then FAIL ''Failed to reach expected session state'' w
      else
        (case tryGetNextSessionState inst zeroInitialized w of
           (Inl e, w') \<Rightarrow> (Inl e, w')
         | (Inr (found, evt), w') \<Rightarrow>
             (if found then
                REQUIRE ''evt.state == expectedSessionState''
                  (state evt = expectedSessionState) w'
              else
                (case submitFrame g sess w' of
                   (Inl e, w'') \<Rightarrow> (Inl e, w'')
                 | (Inr u, w'') \<Rightarrow>
                     submitLoop g inst sess expectedSessionState countdown w''))))"
  by pat_completeness auto
termination
  by (relation "measure (\<lambda>(g, inst, sess, expectedSessionState, countdown, w). length (script w))")
     (auto dest!: tryGetNextSessionState_shortens [OF sym] submitFrame_shortens [OF sym])

declare waitLoop.simps [simp del] submitLoop.simps [simp del]

definition submitFramesUntilSessionState ::
  "GlobalData \<Rightarrow> XrInstance \<Rightarrow> XrSession \<Rightarrow> XrSessionState \<Rightarrow> nat \<Rightarrow> unit test" where
  "submitFramesUntilSessionState g inst sess expectedSessionState duration w =
     submitLoop g inst sess expectedSessionState (CountdownTimer duration w) w"

subsection \<open>The helpers of the second copy of the test (lines 388 to 450)\<close>

definition tryReadEvent' :: "XrInstance \<Rightarrow> (bool \<times> XrEventDataBuffer) test" where
  "tryReadEvent' inst w =
     (case perform (XrPollEvent inst) w of
        (Inl e, w') \<Rightarrow> (Inl e, w')
      | (Inr r, w') \<Rightarrow>
          (case XRC_CHECK_THROW_XRCMD ''res = xrPollEvent(instance, evt)'' (result r) w' of
             (Inl e, w'') \<Rightarrow> (Inl e, w'')
           | (Inr res, w'') \<Rightarrow>
               (Inr (res = XR_SUCCESS,
                     if res = XR_SUCCESS then event r else emptyEventDataBuffer), w'')))"

lemma tryReadEvent'_shortens:
  "tryReadEvent' inst w = (Inr b, w') \<Longrightarrow> length (script w') < length (script w)"
  by (auto simp: tryReadEvent'_def XRC_CHECK_THROW_XRCMD_def
      split: prod.splits sum.splits if_splits dest: perform_shortens)

function tryGetNextSessionState' ::
  "XrInstance \<Rightarrow> XrEventDataSessionStateChanged
     \<Rightarrow> (bool \<times> XrEventDataSessionStateChanged) test" where
  "tryGetNextSessionState' inst evt w =
     (case tryReadEvent' inst w of
        (Inl e, w') \<Rightarrow> (Inl e, w')
      | (Inr (got, buffer), w') \<Rightarrow>
          (if got then
             (if type buffer = XR_TYPE_EVENT_DATA_SESSION_STATE_CHANGED
              then (Inr (True, buffer), w')
              else tryGetNextSessionState' inst evt w')
           else (Inr (False, evt), w')))"
  by pat_completeness auto
termination
  by (relation "measure (\<lambda>(inst, evt, w). length (script w))")
     (auto dest: tryReadEvent'_shortens [OF sym])

declare tryGetNextSessionState'.simps [simp del]

lemma tryGetNextSessionState'_shortens:
  "tryGetNextSessionState' inst evt w = (Inr b, w') \<Longrightarrow> length (script w') < length (script w)"
proof (induction inst evt w rule: tryGetNextSessionState'.induct)
  case (1 inst evt w)
  obtain a w1 where rd: "tryReadEvent' inst w = (a, w1)"
    by (cases "tryReadEvent' inst w")
  show ?case
  proof (cases a)
    case (Inl e)
    with rd "1.prems" show ?thesis
      by (simp add: tryGetNextSessionState'.simps [of inst evt w])
  next
    case (Inr p)
    obtain ok buffer where p: "p = (ok, buffer)" by (cases p)
    note sh = tryReadEvent'_shortens [OF rd [unfolded Inr]]
    show ?thesis
    proof (cases "ok \<and> type buffer \<noteq> XR_TYPE_EVENT_DATA_SESSION_STATE_CHANGED")
      case False
      with rd Inr p "1.prems" sh show ?thesis
        by (auto simp: tryGetNextSessionState'.simps [of inst evt w] split: if_splits)
    next
      case True
      with rd Inr p "1.prems" have "tryGetNextSessionState' inst evt w1 = (Inr b, w')"
        by (simp add: tryGetNextSessionState'.simps [of inst evt w])
      with "1.IH" [OF rd [symmetric, unfolded Inr p] refl refl] True sh
      show ?thesis by simp
    qed
  qed
qed

function waitLoop' ::
  "XrInstance \<Rightarrow> XrEventDataSessionStateChanged \<Rightarrow> nat
     \<Rightarrow> (bool \<times> XrEventDataSessionStateChanged) test" where
  "waitLoop' inst evt countdown w =
     (if IsTimeUp countdown w then (Inr (False, evt), w)
      else
        (case tryGetNextSessionState' inst evt w of
           (Inl e, w') \<Rightarrow> (Inl e, w')
         | (Inr (found, evt'), w') \<Rightarrow>
             (if found then (Inr (True, evt'), w')
              else
                (case sleep_for sleepInterval w' of
                   (Inl e, w'') \<Rightarrow> (Inl e, w'')
                 | (Inr u, w'') \<Rightarrow> waitLoop' inst evt' countdown w''))))"
  by pat_completeness auto
termination
  by (relation "measure (\<lambda>(inst, evt, countdown, w). length (script w))")
     (auto dest!: tryGetNextSessionState'_shortens [OF sym] sleep_for_shortens [OF sym])

definition waitForNextSessionState' ::
  "XrInstance \<Rightarrow> XrEventDataSessionStateChanged \<Rightarrow> nat
     \<Rightarrow> (bool \<times> XrEventDataSessionStateChanged) test" where
  "waitForNextSessionState' inst evt duration w =
     waitLoop' inst evt (CountdownTimer duration w) w"

definition submitFrame' :: "GlobalData \<Rightarrow> XrSession \<Rightarrow> unit test" where
  "submitFrame' g sess =
     bindT (perform (XrWaitFrame sess)) (\<lambda>frameState.
     bindT (XRC_CHECK_THROW_XRCMD ''xrWaitFrame(session, nullptr, &frameState)''
              (result frameState)) (\<lambda>_.
     bindT (perform (XrBeginFrame sess)) (\<lambda>begun.
     bindT (XRC_CHECK_THROW_XRCMD ''xrBeginFrame(session, nullptr)'' (result begun)) (\<lambda>_.
     bindT (perform (XrEndFrame sess (predictedDisplayTime frameState)
                       (environmentBlendModeValue g))) (\<lambda>ended.
     bindT (XRC_CHECK_THROW_XRCMD ''xrEndFrame(session, &frameEndInfo)'' (result ended)) (\<lambda>_.
     returnT ()))))))"

lemma submitFrame'_shortens:
  "submitFrame' g sess w = (Inr u, w') \<Longrightarrow> length (script w') < length (script w)"
  by (auto simp: submitFrame'_def bindT_def returnT_def XRC_CHECK_THROW_XRCMD_def
      split: prod.splits sum.splits if_splits dest!: perform_shortens)

function submitLoop' ::
  "GlobalData \<Rightarrow> XrInstance \<Rightarrow> XrSession \<Rightarrow> XrSessionState \<Rightarrow> nat \<Rightarrow> unit test" where
  "submitLoop' g inst sess expectedSessionState countdown w =
     (if IsTimeUp countdown w then FAIL ''Failed to reach expected session state'' w
      else
        (case tryGetNextSessionState' inst zeroInitialized w of
           (Inl e, w') \<Rightarrow> (Inl e, w')
         | (Inr (found, evt), w') \<Rightarrow>
             (if found then
                REQUIRE ''evt.state == expectedSessionState''
                  (state evt = expectedSessionState) w'
              else
                (case submitFrame' g sess w' of
                   (Inl e, w'') \<Rightarrow> (Inl e, w'')
                 | (Inr u, w'') \<Rightarrow>
                     submitLoop' g inst sess expectedSessionState countdown w''))))"
  by pat_completeness auto
termination
  by (relation "measure (\<lambda>(g, inst, sess, expectedSessionState, countdown, w). length (script w))")
     (auto dest!: tryGetNextSessionState'_shortens [OF sym] submitFrame'_shortens [OF sym])

declare waitLoop'.simps [simp del] submitLoop'.simps [simp del]

definition submitFramesUntilSessionState' ::
  "GlobalData \<Rightarrow> XrInstance \<Rightarrow> XrSession \<Rightarrow> XrSessionState \<Rightarrow> nat \<Rightarrow> unit test" where
  "submitFramesUntilSessionState' g inst sess expectedSessionState duration w =
     submitLoop' g inst sess expectedSessionState (CountdownTimer duration w) w"


subsection \<open>The runtime calls the test cases make directly\<close>

definition XR_NULL_HANDLE :: nat where "XR_NULL_HANDLE = 0"

definition xrWaitFrame :: "XrSession \<Rightarrow> XrResult test" where
  "xrWaitFrame sess = bindT (perform (XrWaitFrame sess)) (\<lambda>r. returnT (result r))"

definition xrBeginSession :: "GlobalData \<Rightarrow> XrSession \<Rightarrow> XrResult test" where
  "xrBeginSession g sess =
     bindT (perform (XrBeginSession sess (viewConfigurationValue g))) (\<lambda>r. returnT (result r))"

definition xrEndSession :: "XrSession \<Rightarrow> XrResult test" where
  "xrEndSession sess = bindT (perform (XrEndSession sess)) (\<lambda>r. returnT (result r))"

definition xrRequestExitSession :: "XrSession \<Rightarrow> XrResult test" where
  "xrRequestExitSession sess =
     bindT (perform (XrRequestExitSession sess)) (\<lambda>r. returnT (result r))"


subsection \<open>First copy: section "Cycle through all states", "Normal operation" (lines 101 to 154)\<close>

definition walkForward ::
  "GlobalData \<Rightarrow> XrInstance \<Rightarrow> XrSession \<Rightarrow> XrEventDataSessionStateChanged
     \<Rightarrow> XrEventDataSessionStateChanged test" where
  "walkForward g inst sess evt =
     bindT (waitForNextSessionState inst evt waitDuration) (\<lambda>(found, evt).
     thenT (REQUIRE ''waitForNextSessionState(instance, &evt) == true'' (found = True)) (
     thenT (REQUIRE ''evt.state == XR_SESSION_STATE_IDLE''
              (state evt = XR_SESSION_STATE_IDLE)) (
     bindT (waitForNextSessionState inst evt waitDuration) (\<lambda>(found, evt).
     thenT (REQUIRE ''waitForNextSessionState(instance, &evt) == true'' (found = True)) (
     thenT (REQUIRE ''evt.state == XR_SESSION_STATE_READY''
              (state evt = XR_SESSION_STATE_READY)) (
     bindT (xrBeginSession g sess) (\<lambda>res.
     thenT (REQUIRE ''XR_SUCCESS == xrBeginSession(session, &beginInfo)'' (XR_SUCCESS = res)) (
     thenT (submitFramesUntilSessionState g inst sess XR_SESSION_STATE_SYNCHRONIZED submitDuration) (
     thenT (submitFramesUntilSessionState g inst sess XR_SESSION_STATE_VISIBLE submitDuration) (
     thenT (submitFramesUntilSessionState g inst sess XR_SESSION_STATE_FOCUSED submitDuration) (
     returnT evt)))))))))))"

definition walkToStopping :: "GlobalData \<Rightarrow> XrInstance \<Rightarrow> XrSession \<Rightarrow> unit test" where
  "walkToStopping g inst sess =
     bindT (xrEndSession sess) (\<lambda>res.
     thenT (REQUIRE ''XR_ERROR_SESSION_NOT_STOPPING == xrEndSession(session)''
              (XR_ERROR_SESSION_NOT_STOPPING = res)) (
     bindT (xrRequestExitSession sess) (\<lambda>res.
     thenT (REQUIRE ''XR_SUCCESS == xrRequestExitSession(session)'' (XR_SUCCESS = res)) (
     thenT (submitFramesUntilSessionState g inst sess XR_SESSION_STATE_VISIBLE submitDuration) (
     thenT (submitFramesUntilSessionState g inst sess XR_SESSION_STATE_SYNCHRONIZED submitDuration) (
     submitFramesUntilSessionState g inst sess XR_SESSION_STATE_STOPPING submitDuration))))))"

definition endStoppedSession ::
  "GlobalData \<Rightarrow> XrInstance \<Rightarrow> XrSession \<Rightarrow> XrEventDataSessionStateChanged \<Rightarrow> unit test" where
  "endStoppedSession g inst sess evt =
     bindT (waitForNextSessionState inst evt waitDuration) (\<lambda>(found, evt).
     thenT (REQUIRE_MSG ''waitForNextSessionState(instance, &evt) == false''
              ''Premature progression from STOPPING to IDLE state'' (found = False)) (
     bindT (xrEndSession sess) (\<lambda>res.
     thenT (REQUIRE ''XR_SUCCESS == xrEndSession(session)'' (XR_SUCCESS = res)) (
     submitFramesUntilSessionState g inst sess XR_SESSION_STATE_IDLE submitDuration))))"

definition Normal_operation :: "GlobalData \<Rightarrow> XrInstance \<Rightarrow> XrSession \<Rightarrow> unit test" where
  "Normal_operation g inst sess =
     thenT (REQUIRE ''session != XR_NULL_HANDLE_CPP'' (sess \<noteq> XR_NULL_HANDLE)) (
     bindT (walkForward g inst sess zeroInitialized) (\<lambda>evt.
     thenT (walkToStopping g inst sess) (
     thenT (endStoppedSession g inst sess evt) (
     submitFramesUntilSessionState g inst sess XR_SESSION_STATE_EXITING submitDuration))))"

subsection \<open>Second copy: section "Cycle through all states" (lines 456 to 503)\<close>

definition walkForward' ::
  "GlobalData \<Rightarrow> XrInstance \<Rightarrow> XrSession \<Rightarrow> XrEventDataSessionStateChanged
     \<Rightarrow> XrEventDataSessionStateChanged test" where
  "walkForward' g inst sess evt =
     bindT (waitForNextSessionState' inst evt waitDuration) (\<lambda>(found, evt).
     thenT (REQUIRE ''waitForNextSessionState(instance, &evt) == true'' (found = True)) (
     thenT (REQUIRE_MSG ''evt.state == XR_SESSION_STATE_IDLE''
              (''Unexpected session state '' @ streamed (state evt))
              (state evt = XR_SESSION_STATE_IDLE)) (
     bindT (waitForNextSessionState' inst evt waitDuration) (\<lambda>(found, evt).
     thenT (REQUIRE ''waitForNextSessionState(instance, &evt) == true'' (found = True)) (
     thenT (REQUIRE_MSG ''evt.state == XR_SESSION_STATE_READY''
              (''Unexpected session state '' @ streamed (state evt))
              (state evt = XR_SESSION_STATE_READY)) (
     bindT (xrBeginSession g sess) (\<lambda>res.
     thenT (REQUIRE ''XR_SUCCESS == xrBeginSession(session, &beginInfo)'' (XR_SUCCESS = res)) (
     thenT (submitFramesUntilSessionState' g inst sess XR_SESSION_STATE_SYNCHRONIZED submitDuration) (
     thenT (submitFramesUntilSessionState' g inst sess XR_SESSION_STATE_VISIBLE submitDuration) (
     thenT (submitFramesUntilSessionState' g inst sess XR_SESSION_STATE_FOCUSED submitDuration) (
     returnT evt)))))))))))"

definition walkToStopping' :: "GlobalData \<Rightarrow> XrInstance \<Rightarrow> XrSession \<Rightarrow> unit test" where
  "walkToStopping' g inst sess =
     bindT (xrEndSession sess) (\<lambda>res.
     thenT (REQUIRE ''XR_ERROR_SESSION_NOT_STOPPING == xrEndSession(session)''
              (XR_ERROR_SESSION_NOT_STOPPING = res)) (
     bindT (xrRequestExitSession sess) (\<lambda>res.
     thenT (REQUIRE ''XR_SUCCESS == xrRequestExitSession(session)'' (XR_SUCCESS = res)) (
     thenT (submitFramesUntilSessionState' g inst sess XR_SESSION_STATE_VISIBLE submitDuration) (
     thenT (submitFramesUntilSessionState' g inst sess XR_SESSION_STATE_SYNCHRONIZED submitDuration) (
     submitFramesUntilSessionState' g inst sess XR_SESSION_STATE_STOPPING submitDuration))))))"

definition endStoppedSession' ::
  "GlobalData \<Rightarrow> XrInstance \<Rightarrow> XrSession \<Rightarrow> XrEventDataSessionStateChanged \<Rightarrow> unit test" where
  "endStoppedSession' g inst sess evt =
     bindT (waitForNextSessionState' inst evt waitDuration) (\<lambda>(found, evt).
     thenT (REQUIRE_MSG ''waitForNextSessionState(instance, &evt) == false''
              ''Premature progression from STOPPING to IDLE state'' (found = False)) (
     bindT (xrEndSession sess) (\<lambda>res.
     thenT (REQUIRE ''XR_SUCCESS == xrEndSession(session)'' (XR_SUCCESS = res)) (
     submitFramesUntilSessionState' g inst sess XR_SESSION_STATE_IDLE submitDuration))))"

definition Cycle_through_all_states' :: "GlobalData \<Rightarrow> XrInstance \<Rightarrow> XrSession \<Rightarrow> unit test" where
  "Cycle_through_all_states' g inst sess =
     thenT (REQUIRE ''session != XR_NULL_HANDLE_CPP'' (sess \<noteq> XR_NULL_HANDLE)) (
     bindT (walkForward' g inst sess zeroInitialized) (\<lambda>evt.
     thenT (walkToStopping' g inst sess) (
     thenT (endStoppedSession' g inst sess evt) (
     submitFramesUntilSessionState' g inst sess XR_SESSION_STATE_EXITING submitDuration))))"


subsection \<open>First copy: section "Try calls out of turn" (lines 156 to 295)\<close>

text \<open>
  Catch2 runs the test case once for each leaf section; \<open>selected\<close> is the name of the
  leaf section the run enters, and every other leaf section is skipped.
\<close>

definition Try_calls_out_of_turn ::
  "GlobalData \<Rightarrow> XrInstance \<Rightarrow> XrSession \<Rightarrow> string \<Rightarrow> unit test" where
  "Try_calls_out_of_turn g inst sess selected =
     (let evt = zeroInitialized in
     thenT (REQUIRE ''session != XR_NULL_HANDLE_CPP'' (sess \<noteq> XR_NULL_HANDLE)) (
     thenT (SECTION ''xrWaitFrame before polling session state IDLE'' selected
              (bindT (xrWaitFrame sess) (\<lambda>res.
               REQUIRE ''XR_ERROR_SESSION_NOT_RUNNING == xrWaitFrame(session, nullptr, &frameState)''
                 (XR_ERROR_SESSION_NOT_RUNNING = res)))) (
     bindT (waitForNextSessionState inst evt waitDuration) (\<lambda>(found, evt).
     thenT (REQUIRE ''waitForNextSessionState(instance, &evt) == true'' (found = True)) (
     thenT (REQUIRE ''evt.state == XR_SESSION_STATE_IDLE''
              (state evt = XR_SESSION_STATE_IDLE)) (
     thenT (SECTION ''xrWaitFrame after polling session state IDLE'' selected
              (bindT (xrWaitFrame sess) (\<lambda>res.
               CHECK ''XR_ERROR_SESSION_NOT_RUNNING == xrWaitFrame(session, nullptr, &frameState)''
                 (XR_ERROR_SESSION_NOT_RUNNING = res)))) (
     bindT (waitForNextSessionState inst evt waitDuration) (\<lambda>(found, evt).
     thenT (REQUIRE ''waitForNextSessionState(instance, &evt) == true'' (found = True)) (
     thenT (REQUIRE ''evt.state == XR_SESSION_STATE_READY''
              (state evt = XR_SESSION_STATE_READY)) (
     thenT (SECTION ''xrWaitFrame in READY'' selected
              (bindT (xrWaitFrame sess) (\<lambda>res.
               REQUIRE ''xrWaitFrame(session, nullptr, &frameState) == XR_ERROR_SESSION_NOT_RUNNING''
                 (res = XR_ERROR_SESSION_NOT_RUNNING)))) (
     bindT (xrBeginSession g sess) (\<lambda>res.
     thenT (REQUIRE ''XR_SUCCESS == xrBeginSession(session, &beginInfo)'' (XR_SUCCESS = res)) (
     bindT (if IsUsingGraphicsPlugin g then
              bindT (waitForNextSessionState inst evt waitDuration) (\<lambda>(found, evt).
              thenT (REQUIRE_MSG ''waitForNextSessionState(instance, &evt) == false''
                       ''Premature progression from READY to SYNCHRONIZED state''
                       (found = False)) (
              returnT evt))
            else returnT evt) (\<lambda>evt.
     thenT (SECTION ''Second call to xrBeginSession in READY'' selected
              (bindT (xrBeginSession g sess) (\<lambda>res.
               REQUIRE ''XR_ERROR_SESSION_RUNNING == xrBeginSession(session, &beginInfo)''
                 (XR_ERROR_SESSION_RUNNING = res)))) (
     thenT (submitFramesUntilSessionState g inst sess XR_SESSION_STATE_SYNCHRONIZED submitDuration) (
     thenT (SECTION ''xrBeginSession in SYNCHRONIZED'' selected
              (bindT (xrBeginSession g sess) (\<lambda>res.
               REQUIRE ''XR_ERROR_SESSION_RUNNING == xrBeginSession(session, &beginInfo)''
                 (XR_ERROR_SESSION_RUNNING = res)))) (
     thenT (submitFramesUntilSessionState g inst sess XR_SESSION_STATE_VISIBLE submitDuration) (
     thenT (SECTION ''xrBeginSession in VISIBLE'' selected
              (bindT (xrBeginSession g sess) (\<lambda>res.
               REQUIRE ''XR_ERROR_SESSION_RUNNING == xrBeginSession(session, &beginInfo)''
                 (XR_ERROR_SESSION_RUNNING = res)))) (
     thenT (submitFramesUntilSessionState g inst sess XR_SESSION_STATE_FOCUSED submitDuration) (
     thenT (SECTION ''xrBeginSession in FOCUSED'' selected
              (bindT (xrBeginSession g sess) (\<lambda>res.
               REQUIRE ''XR_ERROR_SESSION_RUNNING == xrBeginSession(session, &beginInfo)''
                 (XR_ERROR_SESSION_RUNNING = res)))) (
     thenT (SECTION ''xrEndSession in FOCUSED'' selected
              (bindT (xrEndSession sess) (\<lambda>res.
               REQUIRE ''XR_ERROR_SESSION_NOT_STOPPING == xrEndSession(session)''
                 (XR_ERROR_SESSION_NOT_STOPPING = res)))) (
     bindT (xrRequestExitSession sess) (\<lambda>res.
     thenT (REQUIRE ''XR_SUCCESS == xrRequestExitSession(session)'' (XR_SUCCESS = res)) (
     thenT (SECTION ''xrBeginSession in FOCUSED due to xrRequestExitSession'' selected
              (bindT (xrBeginSession g sess) (\<lambda>res.
               REQUIRE ''XR_ERROR_SESSION_RUNNING == xrBeginSession(session, &beginInfo)''
                 (XR_ERROR_SESSION_RUNNING = res)))) (
     thenT (submitFramesUntilSessionState g inst sess XR_SESSION_STATE_VISIBLE submitDuration) (
     thenT (SECTION ''xrBeginSession in VISIBLE due to xrRequestExitSession'' selected
              (bindT (xrBeginSession g sess) (\<lambda>res.
               REQUIRE ''XR_ERROR_SESSION_RUNNING == xrBeginSession(session, &beginInfo)''
                 (XR_ERROR_SESSION_RUNNING = res)))) (
     thenT (submitFramesUntilSessionState g inst sess XR_SESSION_STATE_SYNCHRONIZED submitDuration) (
     thenT (SECTION ''xrBeginSession in SYNCHRONIZED due to xrRequestExitSession'' selected
              (bindT (xrBeginSession g sess) (\<lambda>res.
               REQUIRE ''XR_ERROR_SESSION_RUNNING == xrBeginSession(session, &beginInfo)''
                 (XR_ERROR_SESSION_RUNNING = res)))) (
     thenT (submitFramesUntilSessionState g inst sess XR_SESSION_STATE_STOPPING submitDuration) (
     thenT (SECTION ''xrBeginSession in STOPPING due to xrRequestExitSession'' selected
              (bindT (xrBeginSession g sess) (\<lambda>res.
               REQUIRE ''XR_ERROR_SESSION_RUNNING == xrBeginSession(session, &beginInfo)''
                 (XR_ERROR_SESSION_RUNNING = res)))) (
     bindT (waitForNextSessionState inst evt waitDuration) (\<lambda>(found, evt).
     thenT (REQUIRE ''waitForNextSessionState(instance, &evt) == false'' (found = False)) (
     bindT (xrEndSession sess) (\<lambda>res.
     thenT (REQUIRE ''XR_SUCCESS == xrEndSession(session)'' (XR_SUCCESS = res)) (
     thenT (SECTION ''xrWaitFrame after xrEndSession but before IDLE'' selected
              (bindT (xrWaitFrame sess) (\<lambda>res.
               CHECK ''XR_ERROR_SESSION_NOT_RUNNING == xrWaitFrame(session, nullptr, &frameState)''
                 (XR_ERROR_SESSION_NOT_RUNNING = res)))) (
     thenT (submitFramesUntilSessionState g inst sess XR_SESSION_STATE_IDLE submitDuration) (
     thenT (SECTION ''xrWaitFrame in IDLE while shutting down'' selected
              (bindT (xrWaitFrame sess) (\<lambda>res.
               CHECK ''XR_ERROR_SESSION_NOT_RUNNING == xrWaitFrame(session, nullptr, &frameState)''
                 (XR_ERROR_SESSION_NOT_RUNNING = res)))) (
     thenT (submitFramesUntilSessionState g inst sess XR_SESSION_STATE_EXITING submitDuration) (
     SECTION ''xrWaitFrame in EXITING while shutting down'' selected
              (bindT (xrWaitFrame sess) (\<lambda>res.
               CHECK ''XR_ERROR_SESSION_NOT_RUNNING == xrWaitFrame(session, nullptr, &frameState)''
                 (XR_ERROR_SESSION_NOT_RUNNING = res))))))))))))))))))))))))))))))))))))))))))"

subsection \<open>Section "Advance without frame submission" (lines 331 to 352 and 539 to 559)\<close>



section \<open>What a run leaves in the log\<close>

text \<open>
  The properties below speak of the calls a piece of the test made: the entries it
  appended to the log (\<open>newLog\<close>), the session states delivered to it by
  session-state-changed events (\<open>observed\<close>), and the way polls and frame submissions
  follow each other (\<open>alternating\<close>).
\<close>

definition newLog :: "world \<Rightarrow> world \<Rightarrow> entry list" where
  "newLog w w' = drop (length (log w)) (log w')"

definition stateChangedReply :: "reply \<Rightarrow> bool" where
  "stateChangedReply r \<longleftrightarrow> type (event r) = XR_TYPE_EVENT_DATA_SESSION_STATE_CHANGED"

fun pollOrSleep :: "api_call \<Rightarrow> bool" where
  "pollOrSleep (XrPollEvent i) = True"
| "pollOrSleep (SleepFor d) = True"
| "pollOrSleep c = False"

fun isPoll :: "api_call \<Rightarrow> bool" where
  "isPoll (XrPollEvent i) = True"
| "isPoll c = False"

definition stateEvent :: "entry \<Rightarrow> bool" where
  "stateEvent x \<longleftrightarrow>
     isPoll (call x) \<and> result (answer x) = XR_SUCCESS \<and> stateChangedReply (answer x)"

definition observed :: "entry list \<Rightarrow> XrSessionState list" where
  "observed tr = map (\<lambda>x. state (event (answer x))) (filter stateEvent tr)"

definition advances :: "world \<Rightarrow> entry list \<Rightarrow> world \<Rightarrow> bool" where
  "advances w tr w' \<longleftrightarrow>
     log w' = log w @ tr \<and> now w \<le> now w'
     \<and> currentSection w' = currentSection w \<and> failedChecks w' = failedChecks w
     \<and> list_all (\<lambda>x. inSection x = currentSection w \<and> now w \<le> at x \<and> at x \<le> now w') tr"












definition quietBefore :: "nat \<Rightarrow> entry list \<Rightarrow> bool" where
  "quietBefore deadline tr =
     list_all (\<lambda>x. deadline \<le> at x \<or> (pollOrSleep (call x) \<and> \<not> stateEvent x)) tr"




subsection \<open>Calls made out of turn\<close>











section \<open>Runs determined by the runtime's answers\<close>

text \<open>
  What the test does is a function of the script, so a property of the form "whenever
  the runtime answers like this, the test does that" is stated on the script. A
  \<open>step\<close> is a call with the reply it gets and the leaf section it is made in;
  \<open>played steps w\<close> is the world after the test has made exactly these calls from
  \<open>w\<close>: the replies are gone from the script, the clock has advanced by what the calls
  cost and the calls are in the log, each stamped with the time it was made.
  \<open>yields sec m steps r\<close> says that \<open>m\<close>, started in section \<open>sec\<close> on any script that
  begins with the replies of \<open>steps\<close>, makes exactly these calls and ends with \<open>r\<close>.

  A poll is \<open>skipped\<close> when it delivers an event that is no session state change,
  \<open>drained\<close> when it reports that no event is available, and a state change
  \<open>arrives\<close> with the others. A round of \<open>waitForNextSessionState\<close> that finds nothing
  is a number of skipped polls, a drained one and the sleep; a round of
  \<open>submitFramesUntilSessionState\<close> is the same polls followed by the three calls of
  a frame. An \<open>episode\<close> is what one call of such a helper meets: rounds that find
  nothing and then a state change (\<open>Arrived\<close>), or rounds that find nothing until the
  deadline has passed (\<open>TimedOut\<close>). It is \<open>within\<close> a deadline when the helper, given
  that deadline, goes through all of it and no further: every round starts before the
  deadline, and either the state change is polled in a round that starts before it, or
  the last round ends at or after it.
\<close>

type_synonym step = "string option \<times> api_call \<times> reply"

fun cost :: "api_call \<Rightarrow> reply \<Rightarrow> nat" where
  "cost (SleepFor d) r = elapsed r + d"
| "cost c r = elapsed r"

fun stamp :: "nat \<Rightarrow> step list \<Rightarrow> entry list" where
  "stamp t [] = []"
| "stamp t ((sec, c, r) # steps) =
     \<lparr>call = c, answer = r, at = t, inSection = sec\<rparr> # stamp (t + cost c r) steps"

definition spent :: "step list \<Rightarrow> nat" where
  "spent steps = sum_list (map (\<lambda>(sec, c, r). cost c r) steps)"

definition replies :: "step list \<Rightarrow> reply list" where
  "replies steps = map (\<lambda>(sec, c, r). r) steps"

definition played :: "step list \<Rightarrow> world \<Rightarrow> world" where
  "played steps w =
     w\<lparr>script := drop (length steps) (script w), now := now w + spent steps,
       log := log w @ stamp (now w) steps\<rparr>"

definition polls :: "string option \<Rightarrow> XrInstance \<Rightarrow> reply list \<Rightarrow> step list" where
  "polls sec inst rs = map (\<lambda>r. (sec, XrPollEvent inst, r)) rs"

definition skipped :: "reply \<Rightarrow> bool" where
  "skipped p \<longleftrightarrow> result p = XR_SUCCESS \<and> \<not> stateChangedReply p"

definition drained :: "reply \<Rightarrow> bool" where
  "drained u \<longleftrightarrow> \<not> XR_FAILED (result u) \<and> result u \<noteq> XR_SUCCESS"

definition arrives :: "reply \<Rightarrow> bool" where
  "arrives e \<longleftrightarrow> result e = XR_SUCCESS \<and> stateChangedReply e"

type_synonym waitRound = "reply list \<times> reply \<times> reply"
type_synonym frameRound = "reply list \<times> reply \<times> reply \<times> reply \<times> reply"

fun sleeps :: "string option \<Rightarrow> XrInstance \<Rightarrow> waitRound \<Rightarrow> step list" where
  "sleeps sec inst (ps, u, s) = polls sec inst (ps @ [u]) @ [(sec, SleepFor sleepInterval, s)]"

fun frames ::
  "string option \<Rightarrow> GlobalData \<Rightarrow> XrInstance \<Rightarrow> XrSession \<Rightarrow> frameRound \<Rightarrow> step list" where
  "frames sec g inst sess (ps, u, a, b, c) =
     polls sec inst (ps @ [u])
     @ [(sec, XrWaitFrame sess, a), (sec, XrBeginFrame sess, b),
        (sec, XrEndFrame sess (predictedDisplayTime a) (environmentBlendModeValue g), c)]"

fun quietWait :: "waitRound \<Rightarrow> bool" where
  "quietWait (ps, u, s) \<longleftrightarrow> list_all skipped ps \<and> drained u"

fun quietFrame :: "frameRound \<Rightarrow> bool" where
  "quietFrame (ps, u, a, b, c) \<longleftrightarrow>
     list_all skipped ps \<and> drained u
     \<and> \<not> XR_FAILED (result a) \<and> \<not> XR_FAILED (result b) \<and> \<not> XR_FAILED (result c)"

definition sleepRounds :: "string option \<Rightarrow> XrInstance \<Rightarrow> waitRound list \<Rightarrow> step list" where
  "sleepRounds sec inst rounds = concat (map (sleeps sec inst) rounds)"

definition frameRounds ::
  "string option \<Rightarrow> GlobalData \<Rightarrow> XrInstance \<Rightarrow> XrSession \<Rightarrow> frameRound list \<Rightarrow> step list" where
  "frameRounds sec g inst sess rounds = concat (map (frames sec g inst sess) rounds)"

fun sleepTime :: "waitRound \<Rightarrow> nat" where
  "sleepTime (ps, u, s) = sum_list (map elapsed ps) + elapsed u + elapsed s + sleepInterval"

fun frameTime :: "frameRound \<Rightarrow> nat" where
  "frameTime (ps, u, a, b, c) =
     sum_list (map elapsed ps) + elapsed u + elapsed a + elapsed b + elapsed c"

datatype 'r episode = Arrived "'r list" "reply list" reply | TimedOut "'r list"

fun waitSteps :: "string option \<Rightarrow> XrInstance \<Rightarrow> waitRound episode \<Rightarrow> step list" where
  "waitSteps sec inst (Arrived rounds ps e) =
     sleepRounds sec inst rounds @ polls sec inst (ps @ [e])"
| "waitSteps sec inst (TimedOut rounds) = sleepRounds sec inst rounds"

fun waitWithin :: "nat \<Rightarrow> waitRound episode \<Rightarrow> bool" where
  "waitWithin duration (Arrived rounds ps e) \<longleftrightarrow>
     list_all quietWait rounds \<and> list_all skipped ps \<and> arrives e
     \<and> sum_list (map sleepTime rounds) < duration"
| "waitWithin duration (TimedOut rounds) \<longleftrightarrow>
     list_all quietWait rounds
     \<and> (rounds = [] \<or> sum_list (map sleepTime (butlast rounds)) < duration)
     \<and> duration \<le> sum_list (map sleepTime rounds)"

fun waitResult ::
  "XrEventDataSessionStateChanged \<Rightarrow> waitRound episode
     \<Rightarrow> bool \<times> XrEventDataSessionStateChanged" where
  "waitResult evt (Arrived rounds ps e) = (True, event e)"
| "waitResult evt (TimedOut rounds) = (False, evt)"

fun submitSteps ::
  "string option \<Rightarrow> GlobalData \<Rightarrow> XrInstance \<Rightarrow> XrSession \<Rightarrow> frameRound episode
     \<Rightarrow> step list" where
  "submitSteps sec g inst sess (Arrived rounds ps e) =
     frameRounds sec g inst sess rounds @ polls sec inst (ps @ [e])"
| "submitSteps sec g inst sess (TimedOut rounds) = frameRounds sec g inst sess rounds"

fun submitWithin :: "nat \<Rightarrow> frameRound episode \<Rightarrow> bool" where
  "submitWithin duration (Arrived rounds ps e) \<longleftrightarrow>
     list_all quietFrame rounds \<and> list_all skipped ps \<and> arrives e
     \<and> sum_list (map frameTime rounds) < duration"
| "submitWithin duration (TimedOut rounds) \<longleftrightarrow>
     list_all quietFrame rounds
     \<and> (rounds = [] \<or> sum_list (map frameTime (butlast rounds)) < duration)
     \<and> duration \<le> sum_list (map frameTime rounds)"

fun submitResult :: "XrSessionState \<Rightarrow> frameRound episode \<Rightarrow> failure + unit" where
  "submitResult expected (Arrived rounds ps e) =
     (if state (event e) = expected then Inr ()
      else Inl (RequireFailed ''evt.state == expectedSessionState'' []))"
| "submitResult expected (TimedOut rounds) =
     Inl (Failed ''Failed to reach expected session state'')"

fun arrival :: "'r episode \<Rightarrow> XrEventDataSessionStateChanged" where
  "arrival (Arrived rounds ps e) = event e"
| "arrival (TimedOut rounds) = zeroInitialized"

fun delivered :: "'r episode \<Rightarrow> XrSessionState option" where
  "delivered (Arrived rounds ps e) = Some (state (event e))"
| "delivered (TimedOut rounds) = None"

definition yields :: "string option \<Rightarrow> 'a test \<Rightarrow> step list \<Rightarrow> (failure + 'a) \<Rightarrow> bool" where
  "yields sec m steps r \<longleftrightarrow>
     (\<forall>w rest. currentSection w = sec \<longrightarrow> script w = replies steps @ rest \<longrightarrow>
        m w = (r, played steps w))"

definition probe :: "string \<Rightarrow> string \<Rightarrow> api_call \<Rightarrow> reply \<Rightarrow> step list" where
  "probe name selected c p = (if selected = name then [(Some name, c, p)] else [])"

fun missed ::
  "string \<Rightarrow> string \<Rightarrow> string \<Rightarrow> (XrEventDataSessionStateChanged \<Rightarrow> string)
     \<Rightarrow> waitRound episode \<Rightarrow> failure" where
  "missed e1 m1 e2 m2 (TimedOut rounds) = RequireFailed e1 m1"
| "missed e1 m1 e2 m2 (Arrived rounds ps e) = RequireFailed e2 (m2 (event e))"

definition outOfTurnErrors :: "(string \<times> XrResult) list" where
  "outOfTurnErrors =
     [(''xrWaitFrame before polling session state IDLE'', XR_ERROR_SESSION_NOT_RUNNING),
      (''xrWaitFrame after polling session state IDLE'', XR_ERROR_SESSION_NOT_RUNNING),
      (''xrWaitFrame in READY'', XR_ERROR_SESSION_NOT_RUNNING),
      (''Second call to xrBeginSession in READY'', XR_ERROR_SESSION_RUNNING),
      (''xrBeginSession in SYNCHRONIZED'', XR_ERROR_SESSION_RUNNING),
      (''xrBeginSession in VISIBLE'', XR_ERROR_SESSION_RUNNING),
      (''xrBeginSession in FOCUSED'', XR_ERROR_SESSION_RUNNING),
      (''xrEndSession in FOCUSED'', XR_ERROR_SESSION_NOT_STOPPING),
      (''xrBeginSession in FOCUSED due to xrRequestExitSession'', XR_ERROR_SESSION_RUNNING),
      (''xrBeginSession in VISIBLE due to xrRequestExitSession'', XR_ERROR_SESSION_RUNNING),
      (''xrBeginSession in SYNCHRONIZED due to xrRequestExitSession'',
         XR_ERROR_SESSION_RUNNING),
      (''xrBeginSession in STOPPING due to xrRequestExitSession'', XR_ERROR_SESSION_RUNNING),
      (''xrWaitFrame after xrEndSession but before IDLE'', XR_ERROR_SESSION_NOT_RUNNING),
      (''xrWaitFrame in IDLE while shutting down'', XR_ERROR_SESSION_NOT_RUNNING),
      (''xrWaitFrame in EXITING while shutting down'', XR_ERROR_SESSION_NOT_RUNNING)]"

record journey =
  answerProbe :: reply
  reachIdle :: "waitRound episode"
  reachReady :: "waitRound episode"
  answerBegin :: reply
  staysReady :: "waitRound episode"
  reachSynchronized :: "frameRound episode"
  reachVisible :: "frameRound episode"
  reachFocused :: "frameRound episode"
  answerExit :: reply
  backToVisible :: "frameRound episode"
  backToSynchronized :: "frameRound episode"
  reachStopping :: "frameRound episode"

definition conforming :: "GlobalData \<Rightarrow> string \<Rightarrow> journey \<Rightarrow> bool" where
  "conforming g selected j \<longleftrightarrow>
     map_of outOfTurnErrors selected = Some (result (answerProbe j))
     \<and> waitWithin waitDuration (reachIdle j)
     \<and> delivered (reachIdle j) = Some XR_SESSION_STATE_IDLE
     \<and> waitWithin waitDuration (reachReady j)
     \<and> delivered (reachReady j) = Some XR_SESSION_STATE_READY
     \<and> result (answerBegin j) = XR_SUCCESS
     \<and> waitWithin waitDuration (staysReady j) \<and> delivered (staysReady j) = None
     \<and> submitWithin submitDuration (reachSynchronized j)
     \<and> delivered (reachSynchronized j) = Some XR_SESSION_STATE_SYNCHRONIZED
     \<and> submitWithin submitDuration (reachVisible j)
     \<and> delivered (reachVisible j) = Some XR_SESSION_STATE_VISIBLE
     \<and> submitWithin submitDuration (reachFocused j)
     \<and> delivered (reachFocused j) = Some XR_SESSION_STATE_FOCUSED
     \<and> result (answerExit j) = XR_SUCCESS
     \<and> submitWithin submitDuration (backToVisible j)
     \<and> delivered (backToVisible j) = Some XR_SESSION_STATE_VISIBLE
     \<and> submitWithin submitDuration (backToSynchronized j)
     \<and> delivered (backToSynchronized j) = Some XR_SESSION_STATE_SYNCHRONIZED
     \<and> submitWithin submitDuration (reachStopping j)
     \<and> delivered (reachStopping j) = Some XR_SESSION_STATE_STOPPING"

definition beforeIdle :: "XrSession \<Rightarrow> string \<Rightarrow> journey \<Rightarrow> step list" where
  "beforeIdle sess selected j =
     probe ''xrWaitFrame before polling session state IDLE'' selected (XrWaitFrame sess)
       (answerProbe j)"

definition beforeReady :: "XrInstance \<Rightarrow> XrSession \<Rightarrow> string \<Rightarrow> journey \<Rightarrow> step list" where
  "beforeReady inst sess selected j =
     beforeIdle sess selected j @ waitSteps None inst (reachIdle j)
     @ probe ''xrWaitFrame after polling session state IDLE'' selected (XrWaitFrame sess)
         (answerProbe j)"

definition afterBegin ::
  "GlobalData \<Rightarrow> XrInstance \<Rightarrow> XrSession \<Rightarrow> string \<Rightarrow> journey \<Rightarrow> step list" where
  "afterBegin g inst sess selected j =
     beforeReady inst sess selected j @ waitSteps None inst (reachReady j)
     @ probe ''xrWaitFrame in READY'' selected (XrWaitFrame sess) (answerProbe j)
     @ [(None, XrBeginSession sess (viewConfigurationValue g), answerBegin j)]"

definition secondBegin :: "GlobalData \<Rightarrow> XrSession \<Rightarrow> string \<Rightarrow> journey \<Rightarrow> step list" where
  "secondBegin g sess selected j =
     probe ''Second call to xrBeginSession in READY'' selected
       (XrBeginSession sess (viewConfigurationValue g)) (answerProbe j)"

definition toStopping ::
  "GlobalData \<Rightarrow> XrInstance \<Rightarrow> XrSession \<Rightarrow> string \<Rightarrow> journey \<Rightarrow> step list" where
  "toStopping g inst sess selected j =
     afterBegin g inst sess selected j
     @ (if IsUsingGraphicsPlugin g then waitSteps None inst (staysReady j) else [])
     @ secondBegin g sess selected j
     @ submitSteps None g inst sess (reachSynchronized j)
     @ probe ''xrBeginSession in SYNCHRONIZED'' selected
         (XrBeginSession sess (viewConfigurationValue g)) (answerProbe j)
     @ submitSteps None g inst sess (reachVisible j)
     @ probe ''xrBeginSession in VISIBLE'' selected
         (XrBeginSession sess (viewConfigurationValue g)) (answerProbe j)
     @ submitSteps None g inst sess (reachFocused j)
     @ probe ''xrBeginSession in FOCUSED'' selected
         (XrBeginSession sess (viewConfigurationValue g)) (answerProbe j)
     @ probe ''xrEndSession in FOCUSED'' selected (XrEndSession sess) (answerProbe j)
     @ [(None, XrRequestExitSession sess, answerExit j)]
     @ probe ''xrBeginSession in FOCUSED due to xrRequestExitSession'' selected
         (XrBeginSession sess (viewConfigurationValue g)) (answerProbe j)
     @ submitSteps None g inst sess (backToVisible j)
     @ probe ''xrBeginSession in VISIBLE due to xrRequestExitSession'' selected
         (XrBeginSession sess (viewConfigurationValue g)) (answerProbe j)
     @ submitSteps None g inst sess (backToSynchronized j)
     @ probe ''xrBeginSession in SYNCHRONIZED due to xrRequestExitSession'' selected
         (XrBeginSession sess (viewConfigurationValue g)) (answerProbe j)
     @ submitSteps None g inst sess (reachStopping j)
     @ probe ''xrBeginSession in STOPPING due to xrRequestExitSession'' selected
         (XrBeginSession sess (viewConfigurationValue g)) (answerProbe j)"

section \<open>Concrete runs\<close>

text \<open>
  Replies and worlds for concrete runs: a poll that delivers a session-state-changed
  event or an event of another type, a call answered with a result code after some
  time, a world that starts at time 0 with a given script, and the replies of one
  poll that finds no event followed by one frame.
\<close>

definition stateChanged :: "XrSessionState \<Rightarrow> reply" where
  "stateChanged s =
     \<lparr>result = XR_SUCCESS, elapsed = 1000000,
      event = \<lparr>type = XR_TYPE_EVENT_DATA_SESSION_STATE_CHANGED, session = 1, state = s,
               time = 0\<rparr>,
      predictedDisplayTime = 0\<rparr>"

definition otherEvent :: "XrStructureType \<Rightarrow> reply" where
  "otherEvent t =
     \<lparr>result = XR_SUCCESS, elapsed = 1000000,
      event = zeroInitialized\<lparr>type := t\<rparr>, predictedDisplayTime = 0\<rparr>"

definition answered :: "XrResult \<Rightarrow> nat \<Rightarrow> reply" where
  "answered res t =
     \<lparr>result = res, elapsed = t, event = emptyEventDataBuffer, predictedDisplayTime = 0\<rparr>"

definition startWith :: "reply list \<Rightarrow> world" where
  "startWith rs = \<lparr>script = rs, now = 0, log = [], currentSection = None, failedChecks = []\<rparr>"










section \<open>Properties of the integer colour range queries\<close>

lemma ColorIntegerRangeBits_simps:
  "ColorIntegerRangeBits NoIntegerColor =
     Inl (LogicError ''ColorIntegerRangeBits only valid for integer colors'')"
  "ColorIntegerRangeBits u8 = Inr 8"
  "ColorIntegerRangeBits s8 = Inr 8"
  "ColorIntegerRangeBits u16 = Inr 16"
  "ColorIntegerRangeBits s16 = Inr 16"
  "ColorIntegerRangeBits u32 = Inr 32"
  "ColorIntegerRangeBits s32 = Inr 32"
  "ColorIntegerRangeBits uRGB10A2 = Inr 10"
  by (simp_all add: ColorIntegerRangeBits_def switchColorIntegerRangeBits_def)

lemma ColorIntegerRangeIsSigned_simps:
  "ColorIntegerRangeIsSigned NoIntegerColor =
     Inl (LogicError ''ColorIntegerRangeIsSigned only valid for integer colors'')"
  "ColorIntegerRangeIsSigned u8 = Inr False"
  "ColorIntegerRangeIsSigned s8 = Inr True"
  "ColorIntegerRangeIsSigned u16 = Inr False"
  "ColorIntegerRangeIsSigned s16 = Inr True"
  "ColorIntegerRangeIsSigned u32 = Inr False"
  "ColorIntegerRangeIsSigned s32 = Inr True"
  "ColorIntegerRangeIsSigned uRGB10A2 = Inr False"
  by (simp_all add: ColorIntegerRangeIsSigned_def switchColorIntegerRangeIsSigned_def)

text \<open>
  Claim C5. \<open>ColorIntegerRangeBits\<close> returns 8 for \<open>u8\<close> and \<open>s8\<close>, 16 for \<open>u16\<close> and
  \<open>s16\<close>, 32 for \<open>u32\<close> and \<open>s32\<close>, and 10 for \<open>uRGB10A2\<close>;
  \<open>ColorIntegerRangeIsSigned\<close> returns true for \<open>s8\<close>, \<open>s16\<close>, \<open>s32\<close> and false for
  \<open>u8\<close>, \<open>u16\<close>, \<open>u32\<close>, \<open>uRGB10A2\<close>; called with \<open>NoIntegerColor\<close>, each of the two
  raises a logic error and returns no value.
\<close>

theorem integer_range_classification:
  "ColorIntegerRangeBits u8 = Inr 8 \<and> ColorIntegerRangeBits s8 = Inr 8
   \<and> ColorIntegerRangeBits u16 = Inr 16 \<and> ColorIntegerRangeBits s16 = Inr 16
   \<and> ColorIntegerRangeBits u32 = Inr 32 \<and> ColorIntegerRangeBits s32 = Inr 32
   \<and> ColorIntegerRangeBits uRGB10A2 = Inr 10
   \<and> ColorIntegerRangeIsSigned s8 = Inr True \<and> ColorIntegerRangeIsSigned s16 = Inr True
   \<and> ColorIntegerRangeIsSigned s32 = Inr True
   \<and> ColorIntegerRangeIsSigned u8 = Inr False \<and> ColorIntegerRangeIsSigned u16 = Inr False
   \<and> ColorIntegerRangeIsSigned u32 = Inr False
   \<and> ColorIntegerRangeIsSigned uRGB10A2 = Inr False
   \<and> ColorIntegerRangeBits NoIntegerColor =
       Inl (LogicError ''ColorIntegerRangeBits only valid for integer colors'')
   \<and> ColorIntegerRangeIsSigned NoIntegerColor =
       Inl (LogicError ''ColorIntegerRangeIsSigned only valid for integer colors'')"
  by (simp add: ColorIntegerRangeBits_simps ColorIntegerRangeIsSigned_simps)

text \<open>
  Claim C10. Both queries are total over the eight declared enumerators of
  \<open>ColorIntegerRange\<close>: every enumerator is matched by an explicit \<^verbatim>\<open>case\<close>, so no
  value of the enumeration reaches the \<^verbatim>\<open>default\<close> branch with its
  "Missing case in implementation" error. (An integer that is not an enumerator, such
  as 8, would reach it.)
\<close>

theorem default_branch_unreachable:
  "\<not> missingCaseBits (ColorIntegerRangeBits c)
   \<and> \<not> missingCaseIsSigned (ColorIntegerRangeIsSigned c)
   \<and> missingCaseBits (switchColorIntegerRangeBits 8)
   \<and> missingCaseIsSigned (switchColorIntegerRangeIsSigned 8)"
  by (cases c)
     (simp_all add: ColorIntegerRangeBits_simps ColorIntegerRangeIsSigned_simps
        missingCaseBits_def missingCaseIsSigned_def
        switchColorIntegerRangeBits_def switchColorIntegerRangeIsSigned_def)

section \<open>The two copies of the helpers\<close>

lemma tryReadEvent_copies: "tryReadEvent' inst w = tryReadEvent inst w"
  by (simp add: tryReadEvent'_def tryReadEvent_def)

lemma tryGetNextSessionState_copies:
  "tryGetNextSessionState' inst evt w = tryGetNextSessionState inst evt w"
proof (induction inst evt w rule: tryGetNextSessionState.induct)
  case (1 inst evt w)
  show ?case
  proof (cases "tryReadEvent inst w")
    case (Pair a w1)
    then show ?thesis
      using "1.IH" [OF Pair [symmetric]]
      by (subst tryGetNextSessionState'.simps, subst tryGetNextSessionState.simps)
         (auto simp: tryReadEvent_copies split: sum.splits)
  qed
qed

lemma waitLoop_copies: "waitLoop' inst evt countdown w = waitLoop inst evt countdown w"
proof (induction inst evt countdown w rule: waitLoop.induct)
  case (1 inst evt countdown w)
  show ?case
    using "1.IH"
    by (subst waitLoop'.simps, subst waitLoop.simps)
       (auto simp: tryGetNextSessionState_copies split: sum.splits prod.splits)
qed

lemma submitFrame_copies: "submitFrame' g sess = submitFrame g sess"
  by (simp add: submitFrame'_def submitFrame_def)

lemma submitLoop_copies:
  "submitLoop' g inst sess expected countdown w = submitLoop g inst sess expected countdown w"
proof (induction g inst sess expected countdown w rule: submitLoop.induct)
  case (1 g inst sess expected countdown w)
  show ?case
    using "1.IH"
    by (subst submitLoop'.simps, subst submitLoop.simps)
       (auto simp: tryGetNextSessionState_copies submitFrame_copies split: sum.splits prod.splits)
qed

lemma waitForNextSessionState_copies: "waitForNextSessionState' = waitForNextSessionState"
  by (intro ext) (simp add: waitForNextSessionState'_def waitForNextSessionState_def waitLoop_copies)

lemma submitFramesUntilSessionState_copies:
  "submitFramesUntilSessionState' = submitFramesUntilSessionState"
  by (intro ext)
     (simp add: submitFramesUntilSessionState'_def submitFramesUntilSessionState_def
        submitLoop_copies)

text \<open>
  Claim C9. The helpers of the first copy of the test (lines 33 to 95) and of the second
  copy (lines 388 to 450) are pairwise equal as functions: for every instance or session
  handle, event buffer, deadline, expected state and world, a helper of the second copy
  returns the same result and leaves the same world (the same replies consumed from the
  script, the same clock, the same log) as its counterpart in the first copy.
\<close>

theorem helper_copies_agree:
  "tryReadEvent' = tryReadEvent
   \<and> tryGetNextSessionState' = tryGetNextSessionState
   \<and> waitForNextSessionState' = waitForNextSessionState
   \<and> submitFrame' = submitFrame
   \<and> submitFramesUntilSessionState' = submitFramesUntilSessionState"
  by (intro conjI ext)
     (simp_all add: tryReadEvent_copies tryGetNextSessionState_copies
        waitForNextSessionState_copies submitFrame_copies submitFramesUntilSessionState_copies)

section \<open>The calls each helper makes\<close>

lemma newLog_append: "log w' = log w @ tr \<Longrightarrow> newLog w w' = tr"
  by (simp add: newLog_def)

lemma perform_Cons:
  "script w = r # rs \<Longrightarrow>
   perform c w = (Inr r, w\<lparr>script := rs, now := now w + elapsed r,
     log := log w @ [\<lparr>call = c, answer = r, at = now w, inSection = currentSection w\<rparr>]\<rparr>)"
  by (simp add: perform_def)

lemma tryReadEvent_event:
  assumes "script w = r # rs" and "result r = XR_SUCCESS"
  shows "tryReadEvent inst w = (Inr (True, event r), snd (perform (XrPollEvent inst) w))"
  using assms
  by (simp add: tryReadEvent_def perform_Cons XRC_CHECK_THROW_XRCMD_def XrResult_defs)

lemma tryReadEvent_unavailable:
  assumes "script w = r # rs" and "\<not> XR_FAILED (result r)" and "result r \<noteq> XR_SUCCESS"
  shows "tryReadEvent inst w = (Inr (False, emptyEventDataBuffer), snd (perform (XrPollEvent inst) w))"
  using assms
  by (simp add: tryReadEvent_def perform_Cons XRC_CHECK_THROW_XRCMD_def)

lemma tryGetNextSessionState_scan:
  assumes "\<forall>r\<in>set pending. result r = XR_SUCCESS"
    and "\<not> XR_FAILED (result u)" and "result u \<noteq> XR_SUCCESS"
    and "script w = pending @ u # rest"
  shows "\<exists>w' tr. tryGetNextSessionState inst evt w =
           (case dropWhile (\<lambda>r. \<not> stateChangedReply r) pending of
              [] \<Rightarrow> Inr (False, evt) | e # later \<Rightarrow> Inr (True, event e), w')
         \<and> script w' =
           (case dropWhile (\<lambda>r. \<not> stateChangedReply r) pending of
              [] \<Rightarrow> rest | e # later \<Rightarrow> later @ u # rest)
         \<and> log w' = log w @ tr
         \<and> map answer tr =
           takeWhile (\<lambda>r. \<not> stateChangedReply r) pending
           @ (case dropWhile (\<lambda>r. \<not> stateChangedReply r) pending of
              [] \<Rightarrow> [u] | e # later \<Rightarrow> [e])
         \<and> (\<forall>x\<in>set tr. call x = XrPollEvent inst)"
  using assms(1,4)
proof (induction pending arbitrary: w)
  case Nil
  then have s: "script w = u # rest" by simp
  show ?case
    using tryReadEvent_unavailable [OF s assms(2,3), of inst]
    by (subst tryGetNextSessionState.simps) (simp add: perform_Cons [OF s])
next
  case (Cons p ps)
  then have s: "script w = p # (ps @ u # rest)" and ok: "result p = XR_SUCCESS" by simp_all
  let ?w1 = "snd (perform (XrPollEvent inst) w)"
  have rd: "tryReadEvent inst w = (Inr (True, event p), ?w1)"
    by (rule tryReadEvent_event [OF s ok])
  have s1: "script ?w1 = ps @ u # rest" and l1: "log ?w1 = log w @ [\<lparr>call = XrPollEvent inst, answer = p, at = now w, inSection = currentSection w\<rparr>]"
    by (simp_all add: perform_Cons [OF s])
  show ?case
  proof (cases "stateChangedReply p")
    case True
    then show ?thesis
      using rd s1 l1
      by (subst tryGetNextSessionState.simps) (simp add: stateChangedReply_def)
  next
    case False
    from Cons.prems have "\<forall>r\<in>set ps. result r = XR_SUCCESS" by simp
    from Cons.IH [OF this s1] obtain w' tr where
      ih: "tryGetNextSessionState inst evt ?w1 =
           (case dropWhile (\<lambda>r. \<not> stateChangedReply r) ps of
              [] \<Rightarrow> Inr (False, evt) | e # later \<Rightarrow> Inr (True, event e), w')"
        "script w' =
           (case dropWhile (\<lambda>r. \<not> stateChangedReply r) ps of
              [] \<Rightarrow> rest | e # later \<Rightarrow> later @ u # rest)"
        "log w' = log ?w1 @ tr"
        "map answer tr =
           takeWhile (\<lambda>r. \<not> stateChangedReply r) ps
           @ (case dropWhile (\<lambda>r. \<not> stateChangedReply r) ps of
              [] \<Rightarrow> [u] | e # later \<Rightarrow> [e])"
        "\<forall>x\<in>set tr. call x = XrPollEvent inst"
      by blast
    have "tryGetNextSessionState inst evt w = tryGetNextSessionState inst evt ?w1"
      using rd False by (subst tryGetNextSessionState.simps) (simp add: stateChangedReply_def)
    with ih l1 False show ?thesis
      by (intro exI [of _ w'] exI [of _ "\<lparr>call = XrPollEvent inst, answer = p, at = now w, inSection = currentSection w\<rparr> # tr"]) simp
  qed
qed

lemma observed_append [simp]: "observed (a @ b) = observed a @ observed b"
  by (simp add: observed_def)

lemma observed_Nil [simp]: "observed [] = []"
  by (simp add: observed_def)

lemma advances_refl [simp]: "advances w [] w"
  by (simp add: advances_def)



lemma perform_cases:
  assumes "perform c w = (r, w')"
  obtains (hangs) "script w = []" "r = Inl NoReply" "w' = w"
  | (answers) p rs where "script w = p # rs" "r = Inr p"
      "w' = w\<lparr>script := rs, now := now w + elapsed p,
        log := log w @ [\<lparr>call = c, answer = p, at = now w, inSection = currentSection w\<rparr>]\<rparr>"
  using assms by (auto simp: perform_def split: list.splits)




lemma XR_SUCCESS_not_failed [simp]: "\<not> XR_FAILED XR_SUCCESS"
  by (simp add: XrResult_defs)







lemma observed_Cons_other [simp]:
  "\<not> isPoll (call x) \<Longrightarrow> observed (x # tr) = observed tr"
  by (simp add: observed_def stateEvent_def)






lemma advances_now: "advances w tr w' \<Longrightarrow> now w \<le> now w'"
  by (simp add: advances_def)


































lemma tryGetNextSessionState_unavailable:
  assumes "script w = u # rest" and "\<not> XR_FAILED (result u)" and "result u \<noteq> XR_SUCCESS"
  shows "tryGetNextSessionState inst evt w =
     (Inr (False, evt), snd (perform (XrPollEvent inst) w))"
  using tryReadEvent_unavailable [OF assms, of inst]
  by (subst tryGetNextSessionState.simps) simp

lemma sleep_for_Cons:
  assumes "script w = s # rest"
  shows "sleep_for d w =
     (Inr (), w\<lparr>script := rest, now := now w + elapsed s + d,
        log := log w @ [\<lparr>call = SleepFor d, answer = s, at = now w,
                          inSection = currentSection w\<rparr>]\<rparr>)"
  using assms by (simp add: sleep_for_def perform_Cons)





lemma quietBefore_append [simp]:
  "quietBefore d (a @ b) \<longleftrightarrow> quietBefore d a \<and> quietBefore d b"
  by (simp add: quietBefore_def)






















lemma XR_ERROR_SESSION_RUNNING_not_success [simp]:
  "XR_ERROR_SESSION_RUNNING \<noteq> XR_SUCCESS" "XR_SUCCESS \<noteq> XR_ERROR_SESSION_RUNNING"
  by (simp_all add: XrResult_defs)

















subsection \<open>Calls made out of turn\<close>





























section \<open>What each helper does on a given script\<close>

lemma spent_Nil [simp]: "spent [] = 0"
  by (simp add: spent_def)

lemma spent_Cons [simp]: "spent ((sec, c, r) # steps) = cost c r + spent steps"
  by (simp add: spent_def)

lemma spent_append [simp]: "spent (a @ b) = spent a + spent b"
  by (simp add: spent_def)

lemma replies_Nil [simp]: "replies [] = []"
  by (simp add: replies_def)

lemma replies_Cons [simp]: "replies ((sec, c, r) # steps) = r # replies steps"
  by (simp add: replies_def)

lemma replies_append [simp]: "replies (a @ b) = replies a @ replies b"
  by (simp add: replies_def)

lemma length_replies [simp]: "length (replies steps) = length steps"
  by (simp add: replies_def)

lemma stamp_append: "stamp t (a @ b) = stamp t a @ stamp (t + spent a) b"
  by (induction a arbitrary: t) (auto simp: add.assoc)

lemma played_Nil [simp]: "played [] w = w"
  by (simp add: played_def)

lemma played_append: "played (a @ b) w = played b (played a w)"
  by (simp add: played_def stamp_append add.assoc add.commute [of "length a"])

lemma played_Cons: "played (x # y # ys) w = played (y # ys) (played [x] w)"
  using played_append [of "[x]" "y # ys" w] by simp

lemma script_played [simp]:
  "script w = replies steps @ rest \<Longrightarrow> script (played steps w) = rest"
  by (simp add: played_def)

lemma now_played [simp]: "now (played steps w) = now w + spent steps"
  by (simp add: played_def)

lemma currentSection_played [simp]: "currentSection (played steps w) = currentSection w"
  by (simp add: played_def)

lemma failedChecks_played [simp]: "failedChecks (played steps w) = failedChecks w"
  by (simp add: played_def)

lemma log_played: "log (played steps w) = log w @ stamp (now w) steps"
  by (simp add: played_def)

lemma newLog_played [simp]: "newLog w (played steps w) = stamp (now w) steps"
  by (simp add: newLog_def played_def)

lemma call_stamp [simp]: "map call (stamp t steps) = map (\<lambda>(sec, c, r). c) steps"
  by (induction steps arbitrary: t) auto

lemma answer_stamp [simp]: "map answer (stamp t steps) = replies steps"
  by (induction steps arbitrary: t) auto

lemma polls_simps [simp]:
  "polls sec inst [] = []"
  "polls sec inst (r # rs) = (sec, XrPollEvent inst, r) # polls sec inst rs"
  "polls sec inst (a @ b) = polls sec inst a @ polls sec inst b"
  "replies (polls sec inst rs) = rs"
  "length (polls sec inst rs) = length rs"
  by (simp_all add: polls_def replies_def comp_def)

lemma perform_played:
  assumes "script w = r # rest" and "cost c r = elapsed r"
  shows "perform c w = (Inr r, played [(currentSection w, c, r)] w)"
  using assms by (simp add: perform_Cons played_def)

lemma sleep_for_played:
  assumes "script w = s # rest"
  shows "sleep_for d w = (Inr (), played [(currentSection w, SleepFor d, s)] w)"
  using assms by (simp add: sleep_for_Cons played_def add.assoc)

lemma tryGetNextSessionState_drained:
  assumes "list_all skipped ps" and "drained u" and "script w = ps @ u # rest"
  shows "tryGetNextSessionState inst evt w =
     (Inr (False, evt), played (polls (currentSection w) inst (ps @ [u])) w)"
  using assms
proof (induction ps arbitrary: w)
  case Nil
  then have "script w = u # rest" by simp
  from tryGetNextSessionState_unavailable [OF this, of inst evt] Nil(2)
    perform_played [OF this, of "XrPollEvent inst"]
  show ?case by (simp add: drained_def)
next
  case (Cons p ps)
  let ?w1 = "played [(currentSection w, XrPollEvent inst, p)] w"
  from Cons.prems have sc: "script w = p # (ps @ u # rest)"
    and p: "result p = XR_SUCCESS" "\<not> stateChangedReply p"
    by (simp_all add: skipped_def)
  from tryReadEvent_event [OF sc p(1), of inst] perform_played [OF sc, of "XrPollEvent inst"]
  have rd: "tryReadEvent inst w = (Inr (True, event p), ?w1)" by simp
  have s1: "script ?w1 = ps @ u # rest"
    using sc by (simp add: played_def)
  from Cons.prems have "list_all skipped ps" by simp
  from Cons.IH [OF this Cons.prems(2) s1]
  have "tryGetNextSessionState inst evt ?w1 =
     (Inr (False, evt), played (polls (currentSection w) inst (ps @ [u])) ?w1)"
    by simp
  with rd p(2) show ?case
    by (subst tryGetNextSessionState.simps)
       (simp add: stateChangedReply_def played_append [symmetric])
qed

lemma tryGetNextSessionState_arrives:
  assumes "list_all skipped ps" and "arrives e" and "script w = ps @ e # rest"
  shows "tryGetNextSessionState inst evt w =
     (Inr (True, event e), played (polls (currentSection w) inst (ps @ [e])) w)"
  using assms
proof (induction ps arbitrary: w)
  case Nil
  then have sc: "script w = e # rest" and e: "result e = XR_SUCCESS" "stateChangedReply e"
    by (simp_all add: arrives_def)
  from tryReadEvent_event [OF sc e(1), of inst] perform_played [OF sc, of "XrPollEvent inst"] e(2)
  show ?case
    by (subst tryGetNextSessionState.simps) (simp add: stateChangedReply_def)
next
  case (Cons p ps)
  let ?w1 = "played [(currentSection w, XrPollEvent inst, p)] w"
  from Cons.prems have sc: "script w = p # (ps @ e # rest)"
    and p: "result p = XR_SUCCESS" "\<not> stateChangedReply p"
    by (simp_all add: skipped_def)
  from tryReadEvent_event [OF sc p(1), of inst] perform_played [OF sc, of "XrPollEvent inst"]
  have rd: "tryReadEvent inst w = (Inr (True, event p), ?w1)" by simp
  have s1: "script ?w1 = ps @ e # rest"
    using sc by (simp add: played_def)
  from Cons.prems have "list_all skipped ps" by simp
  from Cons.IH [OF this Cons.prems(2) s1]
  have "tryGetNextSessionState inst evt ?w1 =
     (Inr (True, event e), played (polls (currentSection w) inst (ps @ [e])) ?w1)"
    by simp
  with rd p(2) show ?case
    by (subst tryGetNextSessionState.simps)
       (simp add: stateChangedReply_def played_append [symmetric])
qed

lemma sleepRounds_simps [simp]:
  "sleepRounds sec inst [] = []"
  "sleepRounds sec inst (x # rounds) = sleeps sec inst x @ sleepRounds sec inst rounds"
  "sleepRounds sec inst (xs @ ys) = sleepRounds sec inst xs @ sleepRounds sec inst ys"
  by (simp_all add: sleepRounds_def)

lemma frameRounds_simps [simp]:
  "frameRounds sec g inst sess [] = []"
  "frameRounds sec g inst sess (x # rounds) =
     frames sec g inst sess x @ frameRounds sec g inst sess rounds"
  "frameRounds sec g inst sess (xs @ ys) =
     frameRounds sec g inst sess xs @ frameRounds sec g inst sess ys"
  by (simp_all add: frameRounds_def)

lemma sleeps_round:
  assumes quiet: "quietWait x" and script: "script w = replies (sleeps sec inst x) @ rest"
    and sec: "sec = currentSection w"
  shows "bindT (tryGetNextSessionState inst evt) (\<lambda>p. sleep_for sleepInterval) w
     = (Inr (), played (sleeps sec inst x) w)"
    and "tryGetNextSessionState inst evt w
     = (Inr (False, evt), played (polls sec inst (fst x @ [fst (snd x)])) w)"
    and "sleep_for sleepInterval (played (polls sec inst (fst x @ [fst (snd x)])) w)
     = (Inr (), played (sleeps sec inst x) w)"
proof -
  obtain ps u s where x: "x = (ps, u, s)" by (cases x)
  from script x have sc: "script w = ps @ u # (s # rest)" by simp
  from quiet x have q: "list_all skipped ps" "drained u" by simp_all
  let ?w1 = "played (polls sec inst (ps @ [u])) w"
  from tryGetNextSessionState_drained [OF q sc, of inst evt] sec
  show g: "tryGetNextSessionState inst evt w
     = (Inr (False, evt), played (polls sec inst (fst x @ [fst (snd x)])) w)"
    by (simp add: x)
  have s1: "script ?w1 = s # rest"
    using sc by (intro script_played) simp
  from sleep_for_played [OF s1, of sleepInterval] sec
  show sl: "sleep_for sleepInterval (played (polls sec inst (fst x @ [fst (snd x)])) w)
     = (Inr (), played (sleeps sec inst x) w)"
    by (simp add: x played_append played_Cons)
  from g sl show "bindT (tryGetNextSessionState inst evt) (\<lambda>p. sleep_for sleepInterval) w
     = (Inr (), played (sleeps sec inst x) w)"
    by (simp add: bindT_def)
qed

lemma waitLoop_rounds:
  assumes "list_all quietWait rounds"
    and "script w = replies (sleepRounds sec inst rounds) @ rest"
    and "sec = currentSection w"
    and "rounds \<noteq> [] \<Longrightarrow> now w + spent (sleepRounds sec inst (butlast rounds)) < countdown"
  shows "waitLoop inst evt countdown w
     = waitLoop inst evt countdown (played (sleepRounds sec inst rounds) w)"
  using assms
proof (induction rounds arbitrary: w)
  case Nil
  show ?case by simp
next
  case (Cons x rounds)
  let ?w1 = "played (sleeps sec inst x) w"
  from Cons.prems(1) have q: "quietWait x" "list_all quietWait rounds" by simp_all
  from Cons.prems(2) have sc: "script w = replies (sleeps sec inst x)
      @ (replies (sleepRounds sec inst rounds) @ rest)"
    by simp
  note round = sleeps_round [OF q(1) sc Cons.prems(3)]
  from Cons.prems(4) have "now w < countdown"
    by (cases rounds) simp_all
  then have notup: "\<not> IsTimeUp countdown w" by (simp add: IsTimeUp_def)
  have step: "waitLoop inst evt countdown w = waitLoop inst evt countdown ?w1"
    using notup round(2,3) by (subst waitLoop.simps) simp
  have s1: "script ?w1 = replies (sleepRounds sec inst rounds) @ rest"
    using sc by simp
  have sec1: "sec = currentSection ?w1" using Cons.prems(3) by simp
  have t1: "now ?w1 + spent (sleepRounds sec inst (butlast rounds)) < countdown"
    if "rounds \<noteq> []"
    using Cons.prems(4) that by (simp add: add.assoc)
  from Cons.IH [OF q(2) s1 sec1 t1] step show ?case
    by (simp add: played_append)
qed

lemma spent_polls [simp]: "spent (polls sec inst rs) = sum_list (map elapsed rs)"
  by (induction rs) simp_all

lemma spent_sleeps [simp]: "spent (sleeps sec inst x) = sleepTime x"
  by (cases x) simp

lemma spent_frames [simp]: "spent (frames sec g inst sess x) = frameTime x"
  by (cases x) simp

lemma spent_sleepRounds [simp]:
  "spent (sleepRounds sec inst rounds) = sum_list (map sleepTime rounds)"
  by (induction rounds) simp_all

lemma spent_frameRounds [simp]:
  "spent (frameRounds sec g inst sess rounds) = sum_list (map frameTime rounds)"
  by (induction rounds) simp_all

lemma sum_butlast_le: "sum_list (map f (butlast xs)) \<le> (sum_list (map f xs) :: nat)"
  by (induction xs) auto

lemma waitForNextSessionState_episode:
  assumes within: "waitWithin duration x"
    and script: "script w = replies (waitSteps sec inst x) @ rest"
    and sec: "sec = currentSection w"
  shows "waitForNextSessionState inst evt duration w
     = (Inr (waitResult evt x), played (waitSteps sec inst x) w)"
proof (cases x)
  case (Arrived rounds ps e)
  let ?w1 = "played (sleepRounds sec inst rounds) w"
  from within Arrived have q: "list_all quietWait rounds" "list_all skipped ps" "arrives e"
    and t: "sum_list (map sleepTime rounds) < duration"
    by simp_all
  from script Arrived have sc: "script w = replies (sleepRounds sec inst rounds)
      @ (ps @ e # rest)"
    by simp
  have early: "now w + spent (sleepRounds sec inst (butlast rounds)) < now w + duration"
    using t sum_butlast_le [of sleepTime rounds] by simp
  from waitLoop_rounds [OF q(1) sc sec early]
  have loop: "waitLoop inst evt (now w + duration) w = waitLoop inst evt (now w + duration) ?w1" .
  have s1: "script ?w1 = ps @ e # rest"
    using sc by simp
  have notup: "\<not> IsTimeUp (now w + duration) ?w1"
    using t by (simp add: IsTimeUp_def)
  from tryGetNextSessionState_arrives [OF q(2,3) s1, of inst evt] sec
  have "tryGetNextSessionState inst evt ?w1
      = (Inr (True, event e), played (polls sec inst (ps @ [e])) ?w1)"
    by simp
  with notup have "waitLoop inst evt (now w + duration) ?w1
      = (Inr (True, event e), played (polls sec inst (ps @ [e])) ?w1)"
    by (subst waitLoop.simps) simp
  with loop Arrived show ?thesis
    by (simp add: waitForNextSessionState_def CountdownTimer_def played_append)
next
  case (TimedOut rounds)
  let ?w1 = "played (sleepRounds sec inst rounds) w"
  from within TimedOut have q: "list_all quietWait rounds"
    and t: "rounds = [] \<or> sum_list (map sleepTime (butlast rounds)) < duration"
      "duration \<le> sum_list (map sleepTime rounds)"
    by simp_all
  from script TimedOut have sc: "script w = replies (sleepRounds sec inst rounds) @ rest"
    by simp
  have early: "now w + spent (sleepRounds sec inst (butlast rounds)) < now w + duration"
    if "rounds \<noteq> []"
    using t(1) that by simp
  from waitLoop_rounds [OF q sc sec early]
  have loop: "waitLoop inst evt (now w + duration) w = waitLoop inst evt (now w + duration) ?w1" .
  have up: "IsTimeUp (now w + duration) ?w1"
    using t(2) by (simp add: IsTimeUp_def)
  then have "waitLoop inst evt (now w + duration) ?w1 = (Inr (False, evt), ?w1)"
    by (subst waitLoop.simps) simp
  with loop TimedOut show ?thesis
    by (simp add: waitForNextSessionState_def CountdownTimer_def)
qed

lemma submitFrame_played:
  assumes "script w = a # b # c # rest"
    and "\<not> XR_FAILED (result a)" "\<not> XR_FAILED (result b)" "\<not> XR_FAILED (result c)"
    and "sec = currentSection w"
  shows "submitFrame g sess w =
     (Inr (), played [(sec, XrWaitFrame sess, a), (sec, XrBeginFrame sess, b),
        (sec, XrEndFrame sess (predictedDisplayTime a) (environmentBlendModeValue g), c)] w)"
proof -
  let ?w1 = "played [(sec, XrWaitFrame sess, a)] w"
  let ?w2 = "played [(sec, XrBeginFrame sess, b)] ?w1"
  let ?e = "XrEndFrame sess (predictedDisplayTime a) (environmentBlendModeValue g)"
  have p1: "perform (XrWaitFrame sess) w = (Inr a, ?w1)"
    using perform_played [OF assms(1), of "XrWaitFrame sess"] assms(5) by simp
  have "script ?w1 = b # c # rest" using assms(1) by (intro script_played) simp
  from perform_played [OF this, of "XrBeginFrame sess"] assms(5)
  have p2: "perform (XrBeginFrame sess) ?w1 = (Inr b, ?w2)" by simp
  have "script ?w2 = c # rest" using assms(1) by (simp add: played_def)
  from perform_played [OF this, of ?e] assms(5)
  have p3: "perform ?e ?w2 = (Inr c, played [(sec, ?e, c)] ?w2)" by simp
  from p1 p2 p3 assms(2-4) show ?thesis
    by (simp add: submitFrame_def bindT_def XRC_CHECK_THROW_XRCMD_def returnT_def
        played_Cons)
qed

lemma frames_round:
  assumes quiet: "quietFrame x" and script: "script w = replies (frames sec g inst sess x) @ rest"
    and sec: "sec = currentSection w"
  shows "tryGetNextSessionState inst evt w
     = (Inr (False, evt), played (polls sec inst (fst x @ [fst (snd x)])) w)"
    and "submitFrame g sess (played (polls sec inst (fst x @ [fst (snd x)])) w)
     = (Inr (), played (frames sec g inst sess x) w)"
proof -
  obtain ps u a b c where x: "x = (ps, u, a, b, c)" by (cases x)
  from script x have sc: "script w = ps @ u # (a # b # c # rest)" by simp
  from quiet x have q: "list_all skipped ps" "drained u"
    and ok: "\<not> XR_FAILED (result a)" "\<not> XR_FAILED (result b)" "\<not> XR_FAILED (result c)"
    by simp_all
  let ?w1 = "played (polls sec inst (ps @ [u])) w"
  from tryGetNextSessionState_drained [OF q sc, of inst evt] sec
  show "tryGetNextSessionState inst evt w
     = (Inr (False, evt), played (polls sec inst (fst x @ [fst (snd x)])) w)"
    by (simp add: x)
  have s1: "script ?w1 = a # b # c # rest"
    using sc by (intro script_played) simp
  have "sec = currentSection ?w1" using sec by simp
  from submitFrame_played [OF s1 ok this, of g sess]
  show "submitFrame g sess (played (polls sec inst (fst x @ [fst (snd x)])) w)
     = (Inr (), played (frames sec g inst sess x) w)"
    by (simp add: x played_append played_Cons)
qed

lemma submitLoop_rounds:
  assumes "list_all quietFrame rounds"
    and "script w = replies (frameRounds sec g inst sess rounds) @ rest"
    and "sec = currentSection w"
    and "rounds \<noteq> [] \<Longrightarrow> now w + spent (frameRounds sec g inst sess (butlast rounds)) < countdown"
  shows "submitLoop g inst sess expected countdown w
     = submitLoop g inst sess expected countdown (played (frameRounds sec g inst sess rounds) w)"
  using assms
proof (induction rounds arbitrary: w)
  case Nil
  show ?case by simp
next
  case (Cons x rounds)
  let ?w1 = "played (frames sec g inst sess x) w"
  from Cons.prems(1) have q: "quietFrame x" "list_all quietFrame rounds" by simp_all
  from Cons.prems(2) have sc: "script w = replies (frames sec g inst sess x)
      @ (replies (frameRounds sec g inst sess rounds) @ rest)"
    by simp
  note round = frames_round [OF q(1) sc Cons.prems(3)]
  from Cons.prems(4) have "now w < countdown"
    by (cases rounds) simp_all
  then have notup: "\<not> IsTimeUp countdown w" by (simp add: IsTimeUp_def)
  have step: "submitLoop g inst sess expected countdown w
      = submitLoop g inst sess expected countdown ?w1"
    using notup round by (subst submitLoop.simps) simp
  have s1: "script ?w1 = replies (frameRounds sec g inst sess rounds) @ rest"
    using sc by simp
  have sec1: "sec = currentSection ?w1" using Cons.prems(3) by simp
  have t1: "now ?w1 + spent (frameRounds sec g inst sess (butlast rounds)) < countdown"
    if "rounds \<noteq> []"
    using Cons.prems(4) that by (simp add: add.assoc)
  from Cons.IH [OF q(2) s1 sec1 t1] step show ?case
    by (simp add: played_append)
qed

lemma submitFramesUntilSessionState_episode:
  assumes within: "submitWithin duration x"
    and script: "script w = replies (submitSteps sec g inst sess x) @ rest"
    and sec: "sec = currentSection w"
  shows "submitFramesUntilSessionState g inst sess expected duration w
     = (submitResult expected x, played (submitSteps sec g inst sess x) w)"
proof (cases x)
  case (Arrived rounds ps e)
  let ?w1 = "played (frameRounds sec g inst sess rounds) w"
  from within Arrived have q: "list_all quietFrame rounds" "list_all skipped ps" "arrives e"
    and t: "sum_list (map frameTime rounds) < duration"
    by simp_all
  from script Arrived have sc: "script w = replies (frameRounds sec g inst sess rounds)
      @ (ps @ e # rest)"
    by simp
  have early: "now w + spent (frameRounds sec g inst sess (butlast rounds)) < now w + duration"
    using t sum_butlast_le [of frameTime rounds] by simp
  from submitLoop_rounds [OF q(1) sc sec early]
  have loop: "submitLoop g inst sess expected (now w + duration) w
      = submitLoop g inst sess expected (now w + duration) ?w1" .
  have s1: "script ?w1 = ps @ e # rest"
    using sc by simp
  have notup: "\<not> IsTimeUp (now w + duration) ?w1"
    using t by (simp add: IsTimeUp_def)
  from tryGetNextSessionState_arrives [OF q(2,3) s1, of inst zeroInitialized] sec
  have "tryGetNextSessionState inst zeroInitialized ?w1
      = (Inr (True, event e), played (polls sec inst (ps @ [e])) ?w1)"
    by simp
  with notup have "submitLoop g inst sess expected (now w + duration) ?w1
      = (submitResult expected x, played (polls sec inst (ps @ [e])) ?w1)"
    by (subst submitLoop.simps) (simp add: Arrived REQUIRE_def REQUIRE_MSG_def)
  with loop Arrived show ?thesis
    by (simp add: submitFramesUntilSessionState_def CountdownTimer_def played_append)
next
  case (TimedOut rounds)
  let ?w1 = "played (frameRounds sec g inst sess rounds) w"
  from within TimedOut have q: "list_all quietFrame rounds"
    and t: "rounds = [] \<or> sum_list (map frameTime (butlast rounds)) < duration"
      "duration \<le> sum_list (map frameTime rounds)"
    by simp_all
  from script TimedOut have sc: "script w = replies (frameRounds sec g inst sess rounds) @ rest"
    by simp
  have early: "now w + spent (frameRounds sec g inst sess (butlast rounds)) < now w + duration"
    if "rounds \<noteq> []"
    using t(1) that by simp
  from submitLoop_rounds [OF q sc sec early]
  have loop: "submitLoop g inst sess expected (now w + duration) w
      = submitLoop g inst sess expected (now w + duration) ?w1" .
  have up: "IsTimeUp (now w + duration) ?w1"
    using t(2) by (simp add: IsTimeUp_def)
  then have "submitLoop g inst sess expected (now w + duration) ?w1
      = (Inl (Failed ''Failed to reach expected session state''), ?w1)"
    by (subst submitLoop.simps) (simp add: FAIL_def)
  with loop TimedOut show ?thesis
    by (simp add: submitFramesUntilSessionState_def CountdownTimer_def)
qed

lemma yieldsI:
  assumes "\<And>w rest. currentSection w = sec \<Longrightarrow> script w = replies steps @ rest \<Longrightarrow>
     m w = (r, played steps w)"
  shows "yields sec m steps r"
  using assms by (simp add: yields_def)

lemma yieldsD:
  assumes "yields sec m steps r" and "currentSection w = sec"
    and "script w = replies steps @ rest"
  shows "m w = (r, played steps w)"
  using assms by (simp add: yields_def)

lemma yields_returnT: "yields sec (returnT x) [] (Inr x)"
  by (rule yieldsI) (simp add: returnT_def)

lemma yields_bindT:
  assumes "yields sec m s1 (Inr x)" and "yields sec (k x) s2 r"
  shows "yields sec (bindT m k) (s1 @ s2) r"
proof (rule yieldsI)
  fix w :: world and rest :: "reply list"
  assume sec: "currentSection w = sec" and sc: "script w = replies (s1 @ s2) @ rest"
  then have sc1: "script w = replies s1 @ (replies s2 @ rest)" by simp
  from yieldsD [OF assms(1) sec sc1] have m: "m w = (Inr x, played s1 w)" .
  have "script (played s1 w) = replies s2 @ rest" using sc1 by simp
  from yieldsD [OF assms(2) _ this] sec
  have "k x (played s1 w) = (r, played s2 (played s1 w))" by simp
  with m show "bindT m k w = (r, played (s1 @ s2) w)"
    by (simp add: bindT_def played_append)
qed

lemma yields_bindT_stops:
  assumes "yields sec m s (Inl e)"
  shows "yields sec (bindT m k) s (Inl e)"
proof (rule yieldsI)
  fix w :: world and rest :: "reply list"
  assume "currentSection w = sec" "script w = replies s @ rest"
  from yieldsD [OF assms this] show "bindT m k w = (Inl e, played s w)"
    by (simp add: bindT_def)
qed

lemma yields_thenT:
  assumes "yields sec m s1 (Inr ())" and "yields sec k s2 r"
  shows "yields sec (thenT m k) (s1 @ s2) r"
  unfolding thenT_def using assms by (rule yields_bindT)

lemma yields_thenT_stops:
  assumes "yields sec m s (Inl e)"
  shows "yields sec (thenT m k) s (Inl e)"
  unfolding thenT_def using assms by (rule yields_bindT_stops)

lemma yields_silent:
  assumes "\<And>w. m w = (Inr x, w)" and "yields sec (k x) s r"
  shows "yields sec (bindT m k) s r"
proof (rule yieldsI)
  fix w :: world and rest :: "reply list"
  assume "currentSection w = sec" "script w = replies s @ rest"
  from yieldsD [OF assms(2) this] assms(1) [of w]
  show "bindT m k w = (r, played s w)"
    by (simp add: bindT_def)
qed

lemma yields_require:
  assumes "c" and "yields sec k s r"
  shows "yields sec (thenT (REQUIRE_MSG e m c) k) s r"
  unfolding thenT_def using assms
  by (intro yields_silent [where x = "()"]) (simp_all add: REQUIRE_MSG_def)

lemma yields_require_stops:
  assumes "\<not> c"
  shows "yields sec (thenT (REQUIRE_MSG e m c) k) [] (Inl (RequireFailed e m))"
  using assms
  by (intro yieldsI) (simp add: thenT_def bindT_def REQUIRE_MSG_def)

lemma yields_require_last:
  "yields sec (REQUIRE_MSG e m c) [] (if c then Inr () else Inl (RequireFailed e m))"
  by (intro yieldsI) (simp add: REQUIRE_MSG_def)

lemma yields_wait:
  assumes "waitWithin duration x"
  shows "yields sec (waitForNextSessionState inst evt duration) (waitSteps sec inst x)
     (Inr (waitResult evt x))"
  using assms by (intro yieldsI waitForNextSessionState_episode) simp_all

lemma yields_submit:
  assumes "submitWithin duration y"
  shows "yields sec (submitFramesUntilSessionState g inst sess expected duration)
     (submitSteps sec g inst sess y) (submitResult expected y)"
  using assms by (intro yieldsI submitFramesUntilSessionState_episode) simp_all

lemma yields_submit_then:
  assumes "submitWithin duration y" and "delivered y = Some expected"
    and "yields sec k s r"
  shows "yields sec (thenT (submitFramesUntilSessionState g inst sess expected duration) k)
     (submitSteps sec g inst sess y @ s) r"
proof -
  from assms(2) have "submitResult expected y = Inr ()" by (cases y) simp_all
  with yields_submit [OF assms(1), of sec g inst sess expected]
  show ?thesis by (intro yields_thenT assms(3)) simp
qed

lemma yields_submit_stops:
  assumes "submitWithin duration y" and "delivered y \<noteq> Some expected"
  shows "yields sec (thenT (submitFramesUntilSessionState g inst sess expected duration) k)
     (submitSteps sec g inst sess y) (submitResult expected y)"
proof -
  from assms(2) obtain e where "submitResult expected y = Inl e" by (cases y) auto
  with yields_submit [OF assms(1), of sec g inst sess expected]
  show ?thesis by (auto intro: yields_thenT_stops)
qed

lemma yields_perform:
  assumes "cost c p = elapsed p"
  shows "yields sec (bindT (perform c) (\<lambda>r. returnT (result r))) [(sec, c, p)] (Inr (result p))"
proof (rule yieldsI)
  fix w :: world and rest :: "reply list"
  assume "currentSection w = sec" "script w = replies [(sec, c, p)] @ rest"
  then have "script w = p # rest" and "sec = currentSection w" by simp_all
  with perform_played [OF this(1) assms] show
    "bindT (perform c) (\<lambda>r. returnT (result r)) w = (Inr (result p), played [(sec, c, p)] w)"
    by (simp add: bindT_def returnT_def)
qed

lemma yields_bindT_last:
  assumes "yields sec m s (Inr x)" and "yields sec (k x) [] r"
  shows "yields sec (bindT m k) s r"
proof -
  have "yields sec (bindT m k) (s @ []) r"
    using assms by (rule yields_bindT)
  then show ?thesis by simp
qed

lemma yields_call_then:
  assumes "cost c p = elapsed p" and "yields sec (k (result p)) s r"
  shows "yields sec (bindT (bindT (perform c) (\<lambda>r. returnT (result r))) k) ((sec, c, p) # s) r"
proof -
  have "yields sec (bindT (bindT (perform c) (\<lambda>r. returnT (result r))) k)
     ([(sec, c, p)] @ s) r"
    by (rule yields_bindT) (rule yields_perform [OF assms(1)], rule assms(2))
  then show ?thesis by simp
qed

lemma yields_wait_for_state:
  assumes "waitWithin duration x" and "delivered x = Some S"
    and "yields sec (K (arrival x)) s r"
  shows "yields sec
     (bindT (waitForNextSessionState inst evt duration) (\<lambda>(found, evt').
      thenT (REQUIRE_MSG e1 m1 (found = True)) (
      thenT (REQUIRE_MSG e2 (m2 evt') (state evt' = S)) (
      K evt'))))
     (waitSteps sec inst x @ s) r"
proof -
  from assms(2) obtain rounds ps e where x: "x = Arrived rounds ps e" "state (event e) = S"
    by (cases x) auto
  show ?thesis
    by (rule yields_bindT [OF yields_wait [OF assms(1)]])
       (use assms(3) in \<open>simp add: x yields_require\<close>)
qed

lemma yields_wait_for_state_stops:
  assumes "waitWithin duration x" and "delivered x \<noteq> Some S"
  shows "yields sec
     (bindT (waitForNextSessionState inst evt duration) (\<lambda>(found, evt').
      thenT (REQUIRE_MSG e1 m1 (found = True)) (
      thenT (REQUIRE_MSG e2 (m2 evt') (state evt' = S)) (
      K evt'))))
     (waitSteps sec inst x) (Inl (missed e1 m1 e2 m2 x))"
proof (cases x)
  case (Arrived rounds ps e)
  with assms(2) have ne: "state (event e) \<noteq> S" by simp
  show ?thesis
    apply (rule yields_bindT_last)
     apply (rule yields_wait [OF assms(1)])
    apply (simp add: Arrived)
    apply (rule yields_require)
     apply simp
    apply (rule yields_require_stops)
    apply (rule ne)
    done
next
  case (TimedOut rounds)
  show ?thesis
    apply (rule yields_bindT_last)
     apply (rule yields_wait [OF assms(1)])
    apply (simp add: TimedOut)
    apply (rule yields_require_stops)
    apply simp
    done
qed

lemma yields_wait_for_nothing:
  assumes "waitWithin duration x" and "delivered x = None"
    and "yields sec (K evt) s r"
  shows "yields sec
     (bindT (waitForNextSessionState inst evt duration) (\<lambda>(found, evt').
      thenT (REQUIRE_MSG e1 m1 (found = False)) (K evt')))
     (waitSteps sec inst x @ s) r"
proof -
  from assms(2) obtain rounds where x: "x = TimedOut rounds"
    by (cases x) auto
  show ?thesis
    by (rule yields_bindT [OF yields_wait [OF assms(1)]])
       (use assms(3) in \<open>simp add: x yields_require\<close>)
qed

lemma yields_wait_for_nothing_stops:
  assumes "waitWithin duration x" and "delivered x \<noteq> None"
  shows "yields sec
     (bindT (waitForNextSessionState inst evt duration) (\<lambda>(found, evt').
      thenT (REQUIRE_MSG e1 m1 (found = False)) (K evt')))
     (waitSteps sec inst x) (Inl (RequireFailed e1 m1))"
proof -
  from assms(2) obtain rounds ps e where x: "x = Arrived rounds ps e"
    by (cases x) auto
  show ?thesis
    apply (rule yields_bindT_last)
     apply (rule yields_wait [OF assms(1)])
    apply (simp add: x)
    apply (rule yields_require_stops)
    apply simp
    done
qed

lemma yields_submit_last:
  assumes "submitWithin duration y" and "delivered y = Some expected"
    and "yields sec k [] r"
  shows "yields sec (thenT (submitFramesUntilSessionState g inst sess expected duration) k)
     (submitSteps sec g inst sess y) r"
  using yields_submit_then [OF assms, of g inst sess] by simp

lemma yields_begin_then:
  assumes "result b = XR_SUCCESS" and "yields sec k s r"
  shows "yields sec
     (bindT (xrBeginSession g sess) (\<lambda>res. thenT (REQUIRE_MSG e m (XR_SUCCESS = res)) k))
     ((sec, XrBeginSession sess (viewConfigurationValue g), b) # s) r"
  unfolding xrBeginSession_def
  by (rule yields_call_then) (simp_all add: assms yields_require)

lemma yields_begin_stops:
  assumes "result b \<noteq> XR_SUCCESS"
  shows "yields sec
     (bindT (xrBeginSession g sess) (\<lambda>res. thenT (REQUIRE_MSG e m (XR_SUCCESS = res)) k))
     [(sec, XrBeginSession sess (viewConfigurationValue g), b)] (Inl (RequireFailed e m))"
  unfolding xrBeginSession_def
  by (rule yields_call_then) (use assms in \<open>auto intro: yields_require_stops\<close>)

lemma yields_end_then:
  assumes "result b = XR_SUCCESS" and "yields sec k s r"
  shows "yields sec
     (bindT (xrEndSession sess) (\<lambda>res. thenT (REQUIRE_MSG e m (XR_SUCCESS = res)) k))
     ((sec, XrEndSession sess, b) # s) r"
  unfolding xrEndSession_def
  by (rule yields_call_then) (simp_all add: assms yields_require)

lemma yields_end_stops:
  assumes "result b \<noteq> XR_SUCCESS"
  shows "yields sec
     (bindT (xrEndSession sess) (\<lambda>res. thenT (REQUIRE_MSG e m (XR_SUCCESS = res)) k))
     [(sec, XrEndSession sess, b)] (Inl (RequireFailed e m))"
  unfolding xrEndSession_def
  by (rule yields_call_then) (use assms in \<open>auto intro: yields_require_stops\<close>)

lemma walkForward_yields:
  assumes copy: "walk = walkForward g inst sess evt \<or> walk = walkForward' g inst sess evt"
    and idle: "waitWithin waitDuration xI" "delivered xI = Some XR_SESSION_STATE_IDLE"
    and ready: "waitWithin waitDuration xR" "delivered xR = Some XR_SESSION_STATE_READY"
    and begun: "result b = XR_SUCCESS"
    and sync: "submitWithin submitDuration yS"
      "delivered yS = Some XR_SESSION_STATE_SYNCHRONIZED"
    and visible: "submitWithin submitDuration yV" "delivered yV = Some XR_SESSION_STATE_VISIBLE"
    and focused: "submitWithin submitDuration yF" "delivered yF = Some XR_SESSION_STATE_FOCUSED"
  shows "yields sec walk
     (waitSteps sec inst xI @ waitSteps sec inst xR
      @ (sec, XrBeginSession sess (viewConfigurationValue g), b)
      # submitSteps sec g inst sess yS @ submitSteps sec g inst sess yV
      @ submitSteps sec g inst sess yF)
     (Inr (arrival xR))"
proof -
  let ?steps = "waitSteps sec inst xI @ waitSteps sec inst xR
      @ (sec, XrBeginSession sess (viewConfigurationValue g), b)
      # submitSteps sec g inst sess yS @ submitSteps sec g inst sess yV
      @ submitSteps sec g inst sess yF"
  have one: "yields sec (walkForward g inst sess evt) ?steps (Inr (arrival xR))"
    unfolding walkForward_def REQUIRE_def
    by (intro yields_wait_for_state yields_begin_then yields_submit_then yields_submit_last
        yields_returnT assms)
  have two: "yields sec (walkForward' g inst sess evt) ?steps (Inr (arrival xR))"
    unfolding walkForward'_def REQUIRE_def waitForNextSessionState_copies
      submitFramesUntilSessionState_copies
    by (intro yields_wait_for_state yields_begin_then yields_submit_then yields_submit_last
        yields_returnT assms)
  from copy one two show ?thesis by auto
qed

lemma endStoppedSession_yields:
  assumes quiet: "waitWithin waitDuration q" "delivered q = None"
    and ended: "result e = XR_SUCCESS"
    and idle: "submitWithin submitDuration yI"
  shows "yields sec (endStoppedSession g inst sess evt)
     (waitSteps sec inst q @ (sec, XrEndSession sess, e) # submitSteps sec g inst sess yI)
     (submitResult XR_SESSION_STATE_IDLE yI)"
  unfolding endStoppedSession_def REQUIRE_def
  by (intro yields_wait_for_nothing yields_end_then yields_submit assms)

lemma endStoppedSession_premature:
  assumes "waitWithin waitDuration q" "delivered q \<noteq> None"
  shows "yields sec (endStoppedSession g inst sess evt) (waitSteps sec inst q)
     (Inl (RequireFailed ''waitForNextSessionState(instance, &evt) == false''
             ''Premature progression from STOPPING to IDLE state''))"
  unfolding endStoppedSession_def REQUIRE_def
  by (intro yields_wait_for_nothing_stops assms)

lemma endStoppedSession_not_ended:
  assumes "waitWithin waitDuration q" "delivered q = None" and "result e \<noteq> XR_SUCCESS"
  shows "yields sec (endStoppedSession g inst sess evt)
     (waitSteps sec inst q @ [(sec, XrEndSession sess, e)])
     (Inl (RequireFailed ''XR_SUCCESS == xrEndSession(session)'' []))"
  unfolding endStoppedSession_def REQUIRE_def
  by (intro yields_wait_for_nothing yields_end_stops assms)

lemma yields_begin_then_wait:
  assumes "result b = XR_SUCCESS" and "waitWithin duration q"
  shows "yields sec
     (bindT (xrBeginSession g sess) (\<lambda>res.
      thenT (REQUIRE_MSG e1 m1 (XR_SUCCESS = res)) (
      bindT (waitForNextSessionState inst evt duration) (\<lambda>(found, evt').
      REQUIRE_MSG e2 m2 (found = False)))))
     ((sec, XrBeginSession sess (viewConfigurationValue g), b) # waitSteps sec inst q)
     (if delivered q = None then Inr () else Inl (RequireFailed e2 m2))"
proof -
  have "yields sec
     (bindT (waitForNextSessionState inst evt duration) (\<lambda>(found, evt').
      REQUIRE_MSG e2 m2 (found = False)))
     (waitSteps sec inst q)
     (if delivered q = None then Inr () else Inl (RequireFailed e2 m2))"
    apply (rule yields_bindT_last)
     apply (rule yields_wait [OF assms(2)])
    apply (cases q)
     apply (simp_all add: yields_require_last [where c = False, simplified]
        yields_require_last [where c = True, simplified])
    done
  with assms(1) show ?thesis
    by (intro yields_begin_then)
qed

lemma yields_SECTION:
  assumes "selected = name \<Longrightarrow> yields (Some name) body [(Some name, c, p)] (Inr ())"
  shows "yields sec (SECTION name selected body) (probe name selected c p) (Inr ())"
proof (rule yieldsI)
  fix w :: world and rest :: "reply list"
  assume sec: "currentSection w = sec"
    and sc: "script w = replies (probe name selected c p) @ rest"
  show "SECTION name selected body w = (Inr (), played (probe name selected c p) w)"
  proof (cases "selected = name")
    case False
    then show ?thesis by (simp add: SECTION_def probe_def)
  next
    case True
    let ?v = "w\<lparr>currentSection := Some name\<rparr>"
    from sc True have "script ?v = replies [(Some name, c, p)] @ rest"
      by (simp add: probe_def)
    from yieldsD [OF assms [OF True] _ this]
    have "body ?v = (Inr (), played [(Some name, c, p)] ?v)" by simp
    with True show ?thesis
      by (simp add: SECTION_def probe_def played_def)
  qed
qed

lemma yields_probe_then:
  assumes "selected = name \<Longrightarrow> yields (Some name) body [(Some name, c, p)] (Inr ())"
    and "yields sec k s r"
  shows "yields sec (thenT (SECTION name selected body) k) (probe name selected c p @ s) r"
  by (rule yields_thenT [OF yields_SECTION [OF assms(1)] assms(2)])

lemma yields_required_call:
  assumes "cost c p = elapsed p" and "ok (result p)"
  shows "yields sec (bindT (bindT (perform c) (\<lambda>r. returnT (result r)))
       (\<lambda>res. REQUIRE_MSG e m (ok res))) [(sec, c, p)] (Inr ())"
proof -
  have "yields sec (bindT (bindT (perform c) (\<lambda>r. returnT (result r)))
       (\<lambda>res. REQUIRE_MSG e m (ok res))) ([(sec, c, p)] @ []) (Inr ())"
    apply (rule yields_bindT)
     apply (rule yields_perform [OF assms(1)])
    apply (rule yieldsI)
    apply (simp add: REQUIRE_MSG_def assms(2))
    done
  then show ?thesis by simp
qed

lemma yields_checked_call:
  assumes "cost c p = elapsed p" and "ok (result p)"
  shows "yields sec (bindT (bindT (perform c) (\<lambda>r. returnT (result r)))
       (\<lambda>res. CHECK e (ok res))) [(sec, c, p)] (Inr ())"
proof -
  have "yields sec (bindT (bindT (perform c) (\<lambda>r. returnT (result r)))
       (\<lambda>res. CHECK e (ok res))) ([(sec, c, p)] @ []) (Inr ())"
    apply (rule yields_bindT)
     apply (rule yields_perform [OF assms(1)])
    apply (rule yieldsI)
    apply (simp add: CHECK_def assms(2))
    done
  then show ?thesis by simp
qed

lemma yields_graphics_wait:
  assumes "IsUsingGraphicsPlugin g \<Longrightarrow> waitWithin duration q \<and> delivered q = None"
    and "yields sec (K evt) s r"
  shows "yields sec
     (bindT (if IsUsingGraphicsPlugin g then
              bindT (waitForNextSessionState inst evt duration) (\<lambda>(found, evt').
              thenT (REQUIRE_MSG e m (found = False)) (returnT evt'))
            else returnT evt) K)
     ((if IsUsingGraphicsPlugin g then waitSteps sec inst q else []) @ s) r"
proof (cases "IsUsingGraphicsPlugin g")
  case True
  with assms(1) have q: "waitWithin duration q" "delivered q = None" by simp_all
  have "yields sec
     (bindT (waitForNextSessionState inst evt duration) (\<lambda>(found, evt').
      thenT (REQUIRE_MSG e m (found = False)) (returnT evt')))
     (waitSteps sec inst q @ []) (Inr evt)"
    by (intro yields_wait_for_nothing q yields_returnT)
  with True assms(2) show ?thesis
    by (auto intro: yields_bindT)
next
  case False
  with assms(2) show ?thesis
    using yields_bindT [OF yields_returnT, of sec K evt s r] by simp
qed

lemma yields_graphics_wait_stops:
  assumes "IsUsingGraphicsPlugin g" and "waitWithin duration x" and "delivered x \<noteq> None"
  shows "yields sec
     (bindT (if IsUsingGraphicsPlugin g then
              bindT (waitForNextSessionState inst evt duration) (\<lambda>(found, evt').
              thenT (REQUIRE_MSG e m (found = False)) (returnT evt'))
            else returnT evt) K)
     (waitSteps sec inst x) (Inl (RequireFailed e m))"
proof -
  have "yields sec
     (bindT (waitForNextSessionState inst evt duration) (\<lambda>(found, evt').
      thenT (REQUIRE_MSG e m (found = False)) (returnT evt')))
     (waitSteps sec inst x) (Inl (RequireFailed e m))"
    by (rule yields_wait_for_nothing_stops [OF assms(2,3)])
  then have "yields sec
     (bindT (bindT (waitForNextSessionState inst evt duration) (\<lambda>(found, evt').
      thenT (REQUIRE_MSG e m (found = False)) (returnT evt'))) K)
     (waitSteps sec inst x) (Inl (RequireFailed e m))"
    by (rule yields_bindT_stops)
  with assms(1) show ?thesis by simp
qed

lemma yields_exit_then:
  assumes "result b = XR_SUCCESS" and "yields sec k s r"
  shows "yields sec
     (bindT (xrRequestExitSession sess) (\<lambda>res. thenT (REQUIRE_MSG e m (XR_SUCCESS = res)) k))
     ((sec, XrRequestExitSession sess, b) # s) r"
  unfolding xrRequestExitSession_def
  by (rule yields_call_then) (simp_all add: assms yields_require)

lemmas probe_bodies =
  yields_required_call [where ok = "\<lambda>res. XR_ERROR_SESSION_NOT_RUNNING = res"]
  yields_required_call [where ok = "\<lambda>res. res = XR_ERROR_SESSION_NOT_RUNNING"]
  yields_required_call [where ok = "\<lambda>res. XR_ERROR_SESSION_RUNNING = res"]
  yields_required_call [where ok = "\<lambda>res. XR_ERROR_SESSION_NOT_STOPPING = res"]
  yields_checked_call [where ok = "\<lambda>res. XR_ERROR_SESSION_NOT_RUNNING = res"]

lemmas out_of_turn_rules =
  yields_require yields_probe_then probe_bodies yields_wait_for_state yields_begin_then
  yields_graphics_wait yields_submit_then yields_exit_then

lemma conformingD:
  assumes "conforming g selected j"
  shows "waitWithin waitDuration (reachIdle j)"
    "delivered (reachIdle j) = Some XR_SESSION_STATE_IDLE"
    "waitWithin waitDuration (reachReady j)"
    "delivered (reachReady j) = Some XR_SESSION_STATE_READY"
    "result (answerBegin j) = XR_SUCCESS"
    "submitWithin submitDuration (reachSynchronized j)"
    "delivered (reachSynchronized j) = Some XR_SESSION_STATE_SYNCHRONIZED"
    "submitWithin submitDuration (reachVisible j)"
    "delivered (reachVisible j) = Some XR_SESSION_STATE_VISIBLE"
    "submitWithin submitDuration (reachFocused j)"
    "delivered (reachFocused j) = Some XR_SESSION_STATE_FOCUSED"
    "result (answerExit j) = XR_SUCCESS"
    "submitWithin submitDuration (backToVisible j)"
    "delivered (backToVisible j) = Some XR_SESSION_STATE_VISIBLE"
    "submitWithin submitDuration (backToSynchronized j)"
    "delivered (backToSynchronized j) = Some XR_SESSION_STATE_SYNCHRONIZED"
    "submitWithin submitDuration (reachStopping j)"
    "delivered (reachStopping j) = Some XR_SESSION_STATE_STOPPING"
  using assms by (simp_all add: conforming_def)

lemma conforming_probe:
  assumes "conforming g selected j"
  shows "map_of outOfTurnErrors selected = Some (result (answerProbe j))"
  using assms by (simp add: conforming_def)

lemma conforming_quiet:
  assumes "conforming g selected j"
  shows "waitWithin waitDuration (staysReady j) \<and> delivered (staysReady j) = None"
  using assms by (simp add: conforming_def)

lemma out_of_turn_idle_wait:
  assumes sess: "sess \<noteq> XR_NULL_HANDLE"
    and j: "conforming g selected j"
    and x: "waitWithin waitDuration x" "delivered x \<noteq> Some XR_SESSION_STATE_IDLE"
  shows "yields None (Try_calls_out_of_turn g inst sess selected)
     (beforeIdle sess selected j @ waitSteps None inst x)
     (Inl (missed ''waitForNextSessionState(instance, &evt) == true'' []
             ''evt.state == XR_SESSION_STATE_IDLE'' (\<lambda>evt. []) x))"
  unfolding Try_calls_out_of_turn_def Let_def REQUIRE_def beforeIdle_def
    xrWaitFrame_def
  apply (intro out_of_turn_rules
      yields_wait_for_state_stops [where ?m2.0 = "\<lambda>evt. []"] sess x)
  using conforming_probe [OF j] apply (simp_all add: outOfTurnErrors_def)
  done

lemma out_of_turn_ready_wait:
  assumes sess: "sess \<noteq> XR_NULL_HANDLE"
    and j: "conforming g selected j"
    and x: "waitWithin waitDuration x" "delivered x \<noteq> Some XR_SESSION_STATE_READY"
  shows "yields None (Try_calls_out_of_turn g inst sess selected)
     (beforeReady inst sess selected j @ waitSteps None inst x)
     (Inl (missed ''waitForNextSessionState(instance, &evt) == true'' []
             ''evt.state == XR_SESSION_STATE_READY'' (\<lambda>evt. []) x))"
  unfolding Try_calls_out_of_turn_def Let_def REQUIRE_def beforeIdle_def beforeReady_def
    xrWaitFrame_def append_assoc
  apply (intro out_of_turn_rules conformingD [OF j]
      yields_wait_for_state_stops [where ?m2.0 = "\<lambda>evt. []"] sess x)
  using conforming_probe [OF j] apply (simp_all add: outOfTurnErrors_def)
  done

lemma out_of_turn_graphics_wait_premature:
  assumes sess: "sess \<noteq> XR_NULL_HANDLE"
    and j: "conforming g selected j"
    and graphics: "IsUsingGraphicsPlugin g"
    and x: "waitWithin waitDuration x" "delivered x \<noteq> None"
  shows "yields None (Try_calls_out_of_turn g inst sess selected)
     (afterBegin g inst sess selected j @ waitSteps None inst x)
     (Inl (RequireFailed ''waitForNextSessionState(instance, &evt) == false''
             ''Premature progression from READY to SYNCHRONIZED state''))"
  unfolding Try_calls_out_of_turn_def Let_def REQUIRE_def beforeIdle_def beforeReady_def
    afterBegin_def xrWaitFrame_def append_assoc append_Cons append_Nil
  apply (intro out_of_turn_rules conformingD [OF j]
      yields_graphics_wait_stops graphics sess x)
  using conforming_probe [OF j] apply (simp_all add: outOfTurnErrors_def)
  done

lemma out_of_turn_graphics_wait_over:
  assumes sess: "sess \<noteq> XR_NULL_HANDLE"
    and j: "conforming g selected j"
    and graphics: "IsUsingGraphicsPlugin g"
    and x: "waitWithin waitDuration x" "delivered x = None"
    and y: "submitWithin submitDuration y"
      "delivered y \<noteq> Some XR_SESSION_STATE_SYNCHRONIZED"
  shows "yields None (Try_calls_out_of_turn g inst sess selected)
     (afterBegin g inst sess selected j @ waitSteps None inst x
      @ secondBegin g sess selected j @ submitSteps None g inst sess y)
     (submitResult XR_SESSION_STATE_SYNCHRONIZED y)"
proof -
  have wait: "IsUsingGraphicsPlugin g \<Longrightarrow> waitWithin waitDuration x \<and> delivered x = None"
    using x by simp
  have "yields None (Try_calls_out_of_turn g inst sess selected)
     (afterBegin g inst sess selected j
      @ (if IsUsingGraphicsPlugin g then waitSteps None inst x else [])
      @ secondBegin g sess selected j @ submitSteps None g inst sess y)
     (submitResult XR_SESSION_STATE_SYNCHRONIZED y)"
    unfolding Try_calls_out_of_turn_def Let_def REQUIRE_def beforeIdle_def beforeReady_def
      afterBegin_def secondBegin_def xrWaitFrame_def xrBeginSession_def
      append_assoc append_Cons append_Nil
    apply (intro out_of_turn_rules [unfolded xrBeginSession_def] conformingD [OF j]
        yields_submit_stops wait sess y)
    using conforming_probe [OF j] apply (simp_all add: outOfTurnErrors_def)
    done
  with graphics show ?thesis by simp
qed

lemma out_of_turn_teardown_wait_premature:
  assumes sess: "sess \<noteq> XR_NULL_HANDLE"
    and j: "conforming g selected j"
    and x: "waitWithin waitDuration x" "delivered x \<noteq> None"
  shows "yields None (Try_calls_out_of_turn g inst sess selected)
     (toStopping g inst sess selected j @ waitSteps None inst x)
     (Inl (RequireFailed ''waitForNextSessionState(instance, &evt) == false'' []))"
  unfolding Try_calls_out_of_turn_def Let_def REQUIRE_def beforeIdle_def beforeReady_def
    afterBegin_def secondBegin_def toStopping_def xrWaitFrame_def xrBeginSession_def
    xrEndSession_def append_assoc append_Cons append_Nil
  apply (intro out_of_turn_rules [unfolded xrBeginSession_def] conformingD [OF j]
      conforming_quiet [OF j] yields_wait_for_nothing_stops sess x)
  using conforming_probe [OF j] apply (simp_all add: outOfTurnErrors_def)
  done

lemma out_of_turn_teardown_wait_over:
  assumes sess: "sess \<noteq> XR_NULL_HANDLE"
    and j: "conforming g selected j"
    and x: "waitWithin waitDuration x" "delivered x = None"
    and e: "result e \<noteq> XR_SUCCESS"
  shows "yields None (Try_calls_out_of_turn g inst sess selected)
     (toStopping g inst sess selected j @ waitSteps None inst x
      @ [(None, XrEndSession sess, e)])
     (Inl (RequireFailed ''XR_SUCCESS == xrEndSession(session)'' []))"
  unfolding Try_calls_out_of_turn_def Let_def REQUIRE_def beforeIdle_def beforeReady_def
    afterBegin_def secondBegin_def toStopping_def xrWaitFrame_def xrBeginSession_def
    xrEndSession_def append_assoc append_Cons append_Nil
  apply (intro out_of_turn_rules [unfolded xrBeginSession_def] conformingD [OF j]
      conforming_quiet [OF j] yields_wait_for_nothing
      yields_end_stops [unfolded xrEndSession_def] sess x e)
  using conforming_probe [OF j] apply (simp_all add: outOfTurnErrors_def)
  done

section \<open>Properties of the session state helpers\<close>

text \<open>
  Claim C7. Let the runtime queue hold any sequence of pending events, that is, let the
  coming polls succeed for each of them in turn and the poll after the last one report
  that no event is available. Then \<open>tryGetNextSessionState\<close> (either copy) returns
  the first session-state-changed event of the queue if there is one, having consumed it
  and every event before it and nothing after it; it returns false, leaving the caller's
  event as it was, exactly when the queue holds no session-state-changed event, and then
  the queue is drained. The events it consumed were each polled once and are gone from
  the script: none is returned or read again.
\<close>

theorem tryGetNextSessionState_first_state_change:
  assumes copy: "tryGet = tryGetNextSessionState \<or> tryGet = tryGetNextSessionState'"
    and pending: "\<forall>p\<in>set pending. result p = XR_SUCCESS"
    and unavailable: "\<not> XR_FAILED (result u) \<and> result u \<noteq> XR_SUCCESS"
    and queue: "script w = pending @ u # rest"
  shows "(case dropWhile (\<lambda>p. \<not> stateChangedReply p) pending of
            [] \<Rightarrow> fst (tryGet inst evt w) = Inr (False, evt)
                  \<and> script (snd (tryGet inst evt w)) = rest
          | e # later \<Rightarrow> fst (tryGet inst evt w) = Inr (True, event e)
                  \<and> script (snd (tryGet inst evt w)) = later @ u # rest)
     \<and> map answer (newLog w (snd (tryGet inst evt w))) =
         takeWhile (\<lambda>p. \<not> stateChangedReply p) pending
         @ take 1 (dropWhile (\<lambda>p. \<not> stateChangedReply p) pending @ [u])
     \<and> list_all (\<lambda>x. call x = XrPollEvent inst) (newLog w (snd (tryGet inst evt w)))
     \<and> ((\<exists>e. fst (tryGet inst evt w) = Inr (False, e))
          \<longleftrightarrow> (\<forall>p\<in>set pending. \<not> stateChangedReply p))"
proof -
  have eq: "tryGet inst evt w = tryGetNextSessionState inst evt w"
    using copy by (auto simp: tryGetNextSessionState_copies)
  from tryGetNextSessionState_scan [OF pending conjunct1 [OF unavailable]
      conjunct2 [OF unavailable] queue, of inst evt]
  obtain w' tr where
    scan: "tryGetNextSessionState inst evt w =
           (case dropWhile (\<lambda>r. \<not> stateChangedReply r) pending of
              [] \<Rightarrow> Inr (False, evt) | e # later \<Rightarrow> Inr (True, event e), w')"
      "script w' =
           (case dropWhile (\<lambda>r. \<not> stateChangedReply r) pending of
              [] \<Rightarrow> rest | e # later \<Rightarrow> later @ u # rest)"
      "log w' = log w @ tr"
      "map answer tr =
           takeWhile (\<lambda>r. \<not> stateChangedReply r) pending
           @ (case dropWhile (\<lambda>r. \<not> stateChangedReply r) pending of
              [] \<Rightarrow> [u] | e # later \<Rightarrow> [e])"
      "\<forall>x\<in>set tr. call x = XrPollEvent inst"
    by blast
  from scan(3) have nl: "newLog w w' = tr"
    by (rule newLog_append)
  have none: "dropWhile (\<lambda>r. \<not> stateChangedReply r) pending = []
      \<longleftrightarrow> (\<forall>p\<in>set pending. \<not> stateChangedReply p)"
    by (simp add: dropWhile_eq_Nil_conv)
  show ?thesis
  proof (cases "dropWhile (\<lambda>r. \<not> stateChangedReply r) pending")
    case Nil
    with none have "\<forall>p\<in>set pending. \<not> stateChangedReply p" by simp
    with scan nl show ?thesis
      unfolding eq Nil by (simp add: list_all_iff)
  next
    case (Cons e later)
    with none have "\<not> (\<forall>p\<in>set pending. \<not> stateChangedReply p)" by simp
    with scan nl show ?thesis
      unfolding eq Cons by (simp add: list_all_iff)
  qed
qed

theorem tryGetNextSessionState_first_state_change_witness:
  "fst (tryGetNextSessionState 7 zeroInitialized
          (startWith [otherEvent XR_TYPE_EVENT_DATA_INTERACTION_PROFILE_CHANGED,
                      stateChanged XR_SESSION_STATE_READY,
                      stateChanged XR_SESSION_STATE_SYNCHRONIZED,
                      answered XR_EVENT_UNAVAILABLE 1000]))
     = Inr (True, event (stateChanged XR_SESSION_STATE_READY))
   \<and> script (snd (tryGetNextSessionState 7 zeroInitialized
          (startWith [otherEvent XR_TYPE_EVENT_DATA_INTERACTION_PROFILE_CHANGED,
                      stateChanged XR_SESSION_STATE_READY,
                      stateChanged XR_SESSION_STATE_SYNCHRONIZED,
                      answered XR_EVENT_UNAVAILABLE 1000])))
     = [stateChanged XR_SESSION_STATE_SYNCHRONIZED, answered XR_EVENT_UNAVAILABLE 1000]"
proof -
  let ?pending = "[otherEvent XR_TYPE_EVENT_DATA_INTERACTION_PROFILE_CHANGED,
                   stateChanged XR_SESSION_STATE_READY,
                   stateChanged XR_SESSION_STATE_SYNCHRONIZED]"
  let ?u = "answered XR_EVENT_UNAVAILABLE 1000"
  have pending: "\<forall>p\<in>set ?pending. result p = XR_SUCCESS"
    by (simp add: otherEvent_def stateChanged_def)
  have unavailable: "\<not> XR_FAILED (result ?u) \<and> result ?u \<noteq> XR_SUCCESS"
    by (simp add: answered_def XrResult_defs)
  have queue: "script (startWith (?pending @ [?u])) = ?pending @ ?u # []"
    by (simp add: startWith_def)
  have scan: "dropWhile (\<lambda>p. \<not> stateChangedReply p) ?pending =
      [stateChanged XR_SESSION_STATE_READY, stateChanged XR_SESSION_STATE_SYNCHRONIZED]"
    by (simp add: stateChangedReply_def otherEvent_def stateChanged_def zeroInitialized_def)
  from tryGetNextSessionState_first_state_change
    [OF disjI1 [OF refl] pending unavailable queue, of 7 zeroInitialized]
  show ?thesis
    unfolding scan by simp
qed



section \<open>Properties of the lifecycle scenarios\<close>

















end
